theory Spec2Isabelle
  imports Main "HOL-Library.AList" "HOL-Library.Sublist" "HOL-Library.Multiset"
begin

section \<open>Data model of \<open>src/helpers/push.ts\<close>\<close>

text \<open>
  Paths and remote identifiers are JavaScript strings. A journal entry carries one of the
  three string literals \<open>"create" | "delete" | "modify"\<close>.
\<close>

type_synonym path = string
type_synonym drive_id = string
type_synonym bytes = string

datatype kind = Create | Delete | Modify

text \<open>
  A plain JavaScript object used as a dictionary is the association list of its own
  properties, in the order in which \<open>Object.entries\<close> gives them. \<open>delete obj[k]\<close> is
  \<open>AList.delete\<close> (it removes an own property only), and \<open>Object.fromEntries\<close> defines
  the pairs one after another as own properties, a later pair overwriting an earlier
  one with the same key.
\<close>

definition fromEntries :: "('k \<times> 'v) list \<Rightarrow> ('k \<times> 'v) list" where
  "fromEntries es = fold (\<lambda>(k, v). AList.update k v) es []"

text \<open>
  Every such object (an object literal, the result of \<open>Object.fromEntries\<close> or of
  \<open>JSON.parse\<close>) inherits from \<open>Object.prototype\<close>, whose members are the names below.
  What \<open>obj[k]\<close> evaluates to, for an object whose own properties hold strings: the own
  property \<open>k\<close> when there is one; else the member \<open>k\<close> of \<open>Object.prototype\<close> when there
  is one (a function, and for \<open>__proto__\<close> the prototype object itself); else \<open>undefined\<close>.
\<close>

datatype js_value = Undefined | Str string | Inherited string

definition object_prototype :: "string list" where
  "object_prototype =
     [''constructor'', ''hasOwnProperty'', ''isPrototypeOf'', ''propertyIsEnumerable'',
      ''toLocaleString'', ''toString'', ''valueOf'', ''__proto__'',
      ''__defineGetter__'', ''__defineSetter__'', ''__lookupGetter__'', ''__lookupSetter__'']"

definition obj_get :: "(string \<times> string) list \<Rightarrow> string \<Rightarrow> js_value" where
  "obj_get obj k =
     (case map_of obj k of
        Some v \<Rightarrow> Str v
      | None \<Rightarrow> if k \<in> set object_prototype then Inherited k else Undefined)"

text \<open>
  \<open>obj[k] = v\<close> for a string \<open>v\<close>: an own property \<open>k\<close> is overwritten in place, and a new
  own property is appended. The one exception is \<open>k = "__proto__"\<close> on an object with no
  own property of that name: the assignment reaches the setter inherited from
  \<open>Object.prototype\<close>, which ignores a value that is neither an object nor \<open>null\<close>, and the
  object is left as it was. \<open>assignable obj k\<close> says that an assignment to \<open>obj[k]\<close> takes
  effect.
\<close>

definition assignable :: "(string \<times> string) list \<Rightarrow> string \<Rightarrow> bool" where
  "assignable obj k = (if k = ''__proto__'' then map_of obj k \<noteq> None else True)"

definition obj_set :: "string \<Rightarrow> string \<Rightarrow> (string \<times> string) list \<Rightarrow> (string \<times> string) list" where
  "obj_set k v obj = (if assignable obj k then AList.update k v obj else obj)"

text \<open>\<open>t.settings\<close>: the persisted state \<open>{ driveIdToPath, operations }\<close>.\<close>

record settings =
  driveIdToPath :: "(drive_id \<times> path) list"
  operations :: "(path \<times> kind) list"

text \<open>The plugin object \<open>t\<close>: the session flag and the settings.\<close>

record obsidianGoogleDrive =
  syncing :: bool
  settings :: settings

text \<open>
  Nodes of the local tree (\<open>TFile\<close>, \<open>TFolder\<close>) with the three fields the code reads.
  The host application derives \<open>name\<close> and \<open>parent\<close> from the path: the name is the last
  segment, the parent of a top-level node is the root folder, whose path is \<open>/\<close> and whose
  own parent is \<open>null\<close>.
\<close>

datatype node_kind = TFile | TFolder

record tnode =
  path :: path
  name :: string
  parent :: "path option"
  kind_of :: node_kind

definition nameOfPath :: "path \<Rightarrow> string" where
  "nameOfPath p = rev (takeWhile (\<lambda>c. c \<noteq> CHR ''/'') (rev p))"

definition parentPath :: "path \<Rightarrow> path option" where
  "parentPath p =
     (if p = ''/'' then None
      else if CHR ''/'' \<in> set p
        then Some (rev (drop 1 (dropWhile (\<lambda>c. c \<noteq> CHR ''/'') (rev p))))
        else Some ''/'')"

definition mk_node :: "path \<Rightarrow> node_kind \<Rightarrow> tnode" where
  "mk_node p k = \<lparr>path = p, name = nameOfPath p, parent = parentPath p, kind_of = k\<rparr>"

text \<open>A remote object as returned by \<open>searchFiles\<close>, with the fields the code includes.\<close>

record drive_file =
  file_id :: drive_id
  mimeType :: string
  properties_path :: path
  modifiedTime :: string

definition folderMimeType :: string where
  "folderMimeType = ''application/vnd.google-apps.folder''"

text \<open>
  The two \<open>searchFiles\<close> queries of the file: objects tagged \<open>config: "true"\<close>, and objects
  whose \<open>path\<close> property is one of the given paths.
\<close>

datatype query = ConfigQuery | PathsQuery "path list"

text \<open>
  A \<open>Blob\<close> passed to the remote client: the binary content read from the local file at a
  path (\<open>vault.readBinary\<close>), or the JSON serialisation of a settings object, which is
  represented by the value of the settings at the moment \<open>JSON.stringify\<close> runs.
\<close>

datatype blob = Binary path | Json settings

text \<open>
  A progress message: a string literal, or \<open>getSyncMessage(min, max, completed, total)\<close>
  of \<open>./drive\<close>, which is kept as its four arguments.
\<close>

datatype sync_message = Literal string | SyncMessage nat nat nat nat

text \<open>
  The observable effects of a run, in the order in which they happen: each call to a
  collaborator together with the answer it gave, each notice, each progress message.
  An absent answer (\<open>undefined\<close>, \<open>null\<close>, \<open>false\<close>) is \<open>None\<close> or \<open>False\<close>. An id or a
  parent that the code reads from a dictionary is passed on as the value read.
\<close>

datatype event =
    StartSync
  | EndSync
  | PullCall bool
  | SearchFiles query "drive_file list option"
  | BatchDelete "js_value list" bool
  | CreateFolder string js_value path "drive_id option"
  | UploadFile blob string js_value path "drive_id option"
  | UpdateFile js_value blob "drive_id option"
  | GetFile js_value "bytes option"
  | GetFileMetadata js_value "string option"
  | SetMessage sync_message
  | Notice string
  | LocalCreateFolder path
  | LocalCreateFile path bytes string
  | LocalDeleteFile path
  | LocalModifyFile path bytes string

text \<open>
  The collaborators of \<open>push.ts\<close> (the remote client \<open>t.drive\<close>, the vault and its
  adapter, \<open>pull\<close>) answer as the environment decides. The local tree is the one that
  exists after \<open>pull\<close> has returned, which is when the code reads it.
\<close>

record env =
  pull_settings :: "settings \<Rightarrow> settings"
  vault_node :: "path \<Rightarrow> node_kind option"
  adapter_exists :: "path \<Rightarrow> bool"
  configDir :: string
  drive_searchFiles :: "query \<Rightarrow> drive_file list option"
  drive_batchDelete :: "js_value list \<Rightarrow> bool"
  drive_createFolder :: "string \<Rightarrow> js_value \<Rightarrow> path \<Rightarrow> drive_id option"
  drive_uploadFile :: "blob \<Rightarrow> string \<Rightarrow> js_value \<Rightarrow> path \<Rightarrow> drive_id option"
  drive_updateFile :: "js_value \<Rightarrow> blob \<Rightarrow> drive_id option"
  drive_getFile :: "js_value \<Rightarrow> bytes option"
  drive_getFileMetadata :: "js_value \<Rightarrow> string option"

definition getAbstractFileByPath :: "env \<Rightarrow> path \<Rightarrow> tnode option" where
  "getAbstractFileByPath e p = map_option (mk_node p) (vault_node e p)"

definition getFileByPath :: "env \<Rightarrow> path \<Rightarrow> tnode option" where
  "getFileByPath e p =
     (case vault_node e p of Some TFile \<Rightarrow> Some (mk_node p TFile) | _ \<Rightarrow> None)"

text \<open>
  The state of one run of \<open>push\<close>: the plugin object \<open>t\<close>, the local constant
  \<open>pathsToIds\<close> (an object the create phase writes to), the counter \<open>completed\<close> of the
  current phase, and the effects so far.
\<close>

record run =
  plugin :: obsidianGoogleDrive
  pathsToIds :: "(path \<times> drive_id) list"
  completed :: nat
  trace :: "event list"

definition emit :: "event \<Rightarrow> run \<Rightarrow> run" where
  "emit ev r = r\<lparr>trace := trace r @ [ev]\<rparr>"

definition set_settings :: "settings \<Rightarrow> run \<Rightarrow> run" where
  "set_settings s r = r\<lparr>plugin := (plugin r)\<lparr>settings := s\<rparr>\<rparr>"

definition index_of :: "run \<Rightarrow> (drive_id \<times> path) list" where
  "index_of r = driveIdToPath (settings (plugin r))"

definition journal_of :: "run \<Rightarrow> (path \<times> kind) list" where
  "journal_of r = operations (settings (plugin r))"

text \<open>\<open>t.settings.driveIdToPath[id] = p\<close>\<close>

definition record_id :: "drive_id \<Rightarrow> path \<Rightarrow> run \<Rightarrow> run" where
  "record_id i p r =
     set_settings ((settings (plugin r))\<lparr>driveIdToPath := obj_set i p (index_of r)\<rparr>) r"

text \<open>\<open>delete t.settings.driveIdToPath[k]\<close>\<close>

definition delete_key :: "string \<Rightarrow> run \<Rightarrow> run" where
  "delete_key k r =
     set_settings ((settings (plugin r))\<lparr>driveIdToPath := AList.delete k (index_of r)\<rparr>) r"

section \<open>Collaborators that live outside \<open>push.ts\<close>\<close>

text \<open>
  Modelled from the spec: \<open>t.startSync\<close> and \<open>t.endSync\<close> (methods of the plugin class,
  which is not among the sources). The spec's Sync Session is "a boolean flag set for the
  duration of one orchestrator run", "set at session start" and cleared at session end.
\<close>

definition startSync :: "run \<Rightarrow> run" where
  "startSync r = emit StartSync (r\<lparr>plugin := (plugin r)\<lparr>syncing := True\<rparr>\<rparr>)"

definition endSync :: "run \<Rightarrow> run" where
  "endSync r = emit EndSync (r\<lparr>plugin := (plugin r)\<lparr>syncing := False\<rparr>\<rparr>)"

text \<open>
  Modelled from the spec: \<open>pull(t, true)\<close> of \<open>./pull\<close>, "invoked, and must complete,
  before the delete/create/modify phases run", merging remote changes into local state.
  What it does to the settings is the environment's \<open>pull_settings\<close>.
\<close>

definition pull :: "env \<Rightarrow> bool \<Rightarrow> run \<Rightarrow> run" where
  "pull e silence r =
     emit (PullCall silence) (set_settings (pull_settings e (settings (plugin r))) r)"

text \<open>
  Modelled from the spec: \<open>batchAsyncs\<close> of \<open>./drive\<close>, the Concurrency Batcher:
  "execute all N actions to completion", "return once every action has settled", a failure
  of one action does not cancel the others. The actions are run one after another in list
  order, which is the schedule of width 1.
\<close>

definition batchAsyncs :: "(run \<Rightarrow> run) list \<Rightarrow> run \<Rightarrow> run" where
  "batchAsyncs tasks r = fold (\<lambda>task. task) tasks r"

text \<open>
  Modelled from the spec: the depth by which \<open>foldersToBatches\<close> of \<open>./drive\<close> (the
  Hierarchy Batcher) orders the nodes of an operation set \<open>S\<close>. "A node's depth is the
  number of container ancestors", and "a node whose parent is not itself in the operation
  set is treated as depth 0 relative to the set".
\<close>

function depthIn :: "path list \<Rightarrow> path \<Rightarrow> nat" where
  "depthIn S p =
     (case parentPath p of
        None \<Rightarrow> 0
      | Some q \<Rightarrow> if q \<in> set S then Suc (depthIn S q) else 0)"
  by pat_completeness auto

lemma length_dropWhile_rev_less:
  "c \<in> set p \<Longrightarrow> length (drop 1 (dropWhile (\<lambda>x. x \<noteq> c) (rev p))) < length p"
proof -
  assume "c \<in> set p"
  then have "dropWhile (\<lambda>x. x \<noteq> c) (rev p) \<noteq> []" by simp
  then have "length (drop 1 (dropWhile (\<lambda>x. x \<noteq> c) (rev p)))
               < length (dropWhile (\<lambda>x. x \<noteq> c) (rev p))"
    by (cases "dropWhile (\<lambda>x. x \<noteq> c) (rev p)") simp_all
  also have "\<dots> \<le> length (rev p)" by (rule length_dropWhile_le)
  finally show ?thesis by simp
qed

lemma parentPath_smaller:
  "parentPath p = Some q \<Longrightarrow>
     (if q = ''/'' then 0 else Suc (length q)) < (if p = ''/'' then 0 else Suc (length p))"
  using length_dropWhile_rev_less [of "CHR ''/''" p]
  by (auto simp: parentPath_def split: if_splits)

termination depthIn
  by (relation "measure (\<lambda>(S, p). if p = ''/'' then 0 else Suc (length p))")
     (use parentPath_smaller in \<open>auto split: if_splits\<close>)

declare depthIn.simps [simp del]

text \<open>
  Modelled from the spec: \<open>foldersToBatches\<close> of \<open>./drive\<close>, the Hierarchy Batcher for
  creation: "batch i contains all nodes at hierarchy depth i (root-most first for
  creation)". The function is applied to folders (\<open>TFolder[]\<close>) and to paths
  (\<open>string[]\<close>); \<open>key\<close> gives the path of an element.
\<close>

definition foldersToBatches :: "('a \<Rightarrow> path) \<Rightarrow> 'a list \<Rightarrow> 'a list list" where
  "foldersToBatches key xs =
     (if xs = [] then []
      else map (\<lambda>d. filter (\<lambda>x. depthIn (map key xs) (key x) = d) xs)
             [0 ..< Suc (fold max (map (\<lambda>x. depthIn (map key xs) (key x)) xs) 0)])"

section \<open>The push orchestrator\<close>

text \<open>How a run of \<open>push\<close> returns.\<close>

datatype outcome =
    Blocked
  | FetchFailed
  | DeleteFailed
  | Completed

text \<open>
  \<open>node.parent ? pathsToIds[node.parent.path] : undefined\<close> (lines 197--199 and 224).
\<close>

definition lookup_parent :: "run \<Rightarrow> tnode \<Rightarrow> js_value" where
  "lookup_parent r n =
     (case parent n of None \<Rightarrow> Undefined | Some pp \<Rightarrow> obj_get (pathsToIds r) pp)"

text \<open>
  One container task of the create phase (lines 194--212): the parent id is looked up in
  \<open>pathsToIds\<close> when the task starts; on an id the counter, the progress message, the
  Index and \<open>pathsToIds\<close> are updated, in this order.
\<close>

definition createFolderTask :: "env \<Rightarrow> nat \<Rightarrow> tnode \<Rightarrow> run \<Rightarrow> run" where
  "createFolderTask e nfiles folder r =
     (let par = lookup_parent r folder;
          res = drive_createFolder e (name folder) par (path folder);
          r1 = emit (CreateFolder (name folder) par (path folder) res) r
      in case res of
           None \<Rightarrow> emit (Notice ''Error creating folders.'') r1
         | Some i \<Rightarrow>
             (let r2 = r1\<lparr>completed := Suc (completed r1)\<rparr>;
                  r3 = emit (SetMessage (SyncMessage 33 66 (completed r2) nfiles)) r2;
                  r4 = record_id i (path folder) r3
              in r4\<lparr>pathsToIds := obj_set (path folder) i (pathsToIds r4)\<rparr>))"

text \<open>One leaf task of the create phase (lines 220--236).\<close>

definition uploadTask :: "env \<Rightarrow> nat \<Rightarrow> tnode \<Rightarrow> run \<Rightarrow> run" where
  "uploadTask e nfiles note r =
     (let par = lookup_parent r note;
          res = drive_uploadFile e (Binary (path note)) (name note) par (path note);
          r1 = emit (UploadFile (Binary (path note)) (name note) par (path note) res) r
      in case res of
           None \<Rightarrow> emit (Notice ''Error uploading file.'') r1
         | Some i \<Rightarrow>
             (let r2 = r1\<lparr>completed := Suc (completed r1)\<rparr>;
                  r3 = emit (SetMessage (SyncMessage 33 66 (completed r2) nfiles)) r2
              in record_id i (path note) r3))"

text \<open>The loop over the container batches (lines 192--214).\<close>

definition createFolderBatches :: "env \<Rightarrow> nat \<Rightarrow> tnode list list \<Rightarrow> run \<Rightarrow> run" where
  "createFolderBatches e nfiles batches r =
     fold (\<lambda>batch. batchAsyncs (map (createFolderTask e nfiles) batch)) batches r"

text \<open>The delete phase (lines 168--176); \<open>False\<close> is the early return.\<close>

definition delete_phase :: "env \<Rightarrow> (path \<times> kind) list \<Rightarrow> run \<Rightarrow> bool \<times> run" where
  "delete_phase e deletes r =
     (if deletes \<noteq> [] then
        (let ids = map (\<lambda>(p, _). obj_get (pathsToIds r) p) deletes;
             deleteRequest = drive_batchDelete e ids;
             r1 = emit (BatchDelete ids deleteRequest) r
         in if \<not> deleteRequest
            then (False, emit (Notice ''An error occurred deleting Google Drive files.'') r1)
            else (True, fold (\<lambda>(p, _). delete_key p) deletes r1))
      else (True, r))"

text \<open>The create phase (lines 180--238).\<close>

definition create_phase :: "env \<Rightarrow> (path \<times> kind) list \<Rightarrow> run \<Rightarrow> run" where
  "create_phase e creates r =
     (if creates \<noteq> [] then
        (let r0 = r\<lparr>completed := 0\<rparr>;
             files = map (\<lambda>(p, _). getAbstractFileByPath e p) creates;
             folders = map the (filter (\<lambda>f. map_option kind_of f = Some TFolder) files);
             r1 = (if folders \<noteq> []
                   then createFolderBatches e (length files) (foldersToBatches path folders) r0
                   else r0);
             notes = map the (filter (\<lambda>f. map_option kind_of f = Some TFile) files)
         in batchAsyncs (map (uploadTask e (length files)) notes) r1)
      else r)"

text \<open>One task of the modify phase (lines 254--265).\<close>

definition updateTask ::
  "env \<Rightarrow> (path \<times> drive_id) list \<Rightarrow> nat \<Rightarrow> tnode \<Rightarrow> run \<Rightarrow> run" where
  "updateTask e pathToId nfiles file r =
     (let i = obj_get pathToId (path file);
          res = drive_updateFile e i (Binary (path file));
          r1 = emit (UpdateFile i (Binary (path file)) res) r
      in case res of
           None \<Rightarrow> emit (Notice ''Error modifying file.'') r1
         | Some _ \<Rightarrow>
             (let r2 = r1\<lparr>completed := Suc (completed r1)\<rparr>
              in emit (SetMessage (SyncMessage 66 99 (completed r2) nfiles)) r2))"

text \<open>The modify phase (lines 240--267).\<close>

definition modify_phase :: "env \<Rightarrow> (path \<times> kind) list \<Rightarrow> run \<Rightarrow> run" where
  "modify_phase e modifies r =
     (if modifies \<noteq> [] then
        (let r0 = r\<lparr>completed := 0\<rparr>;
             files = map the (filter (\<lambda>f. f \<noteq> None)
                       (map (\<lambda>(p, _). getFileByPath e p) modifies));
             pathToId = fromEntries (map prod.swap (index_of r0))
         in batchAsyncs (map (updateTask e pathToId (length files)) files) r0)
      else r)"

text \<open>
  The end of the run (lines 269--277): the settings are serialised and sent as an update
  of the remote configuration object, the answer is dropped, then the journal is emptied
  and the session is ended.
\<close>

definition persist :: "env \<Rightarrow> run \<Rightarrow> run" where
  "persist e r =
     (let i = obj_get (pathsToIds r) (configDir e @ ''/plugins/google-drive-sync/data.json'');
          b = Json (settings (plugin r))
      in emit (UpdateFile i b (drive_updateFile e i b)) r)"

definition clear_operations :: "run \<Rightarrow> run" where
  "clear_operations r = set_settings ((settings (plugin r))\<lparr>operations := []\<rparr>) r"

definition finish :: "env \<Rightarrow> run \<Rightarrow> run" where
  "finish e r = emit (Notice ''Sync complete!'') (endSync (clear_operations (persist e r)))"

text \<open>
  The configuration objects found on the remote side whose local counterpart does not
  exist are appended to the deletes (lines 160--166).
\<close>

definition config_deletes :: "env \<Rightarrow> drive_file list \<Rightarrow> (path \<times> kind) list" where
  "config_deletes e configOnDrive =
     map (\<lambda>f. (properties_path f, Delete))
       (filter (\<lambda>f. \<not> adapter_exists e (properties_path f)) configOnDrive)"

definition init_run :: "obsidianGoogleDrive \<Rightarrow> run" where
  "init_run t = \<lparr>plugin = t, pathsToIds = [], completed = 0, trace = []\<rparr>"

text \<open>
  The state at line 152, after \<open>startSync\<close>, \<open>pull\<close> and the computation of
  \<open>pathsToIds\<close> from the Index.
\<close>

definition prepared :: "env \<Rightarrow> obsidianGoogleDrive \<Rightarrow> run" where
  "prepared e t =
     (let r = pull e True (startSync (init_run t))
      in r\<lparr>pathsToIds := fromEntries (map prod.swap (index_of r))\<rparr>)"

definition ops_of_kind :: "kind \<Rightarrow> run \<Rightarrow> (path \<times> kind) list" where
  "ops_of_kind k r = filter (\<lambda>(_, op). op = k) (journal_of r)"

text \<open>
  \<open>push\<close> (lines 125--278). The sorted copy \<open>initialOperations\<close> is never read and the
  constant \<open>proceed\<close> is \<open>true\<close>.
\<close>

definition push :: "env \<Rightarrow> obsidianGoogleDrive \<Rightarrow> outcome \<times> run" where
  "push e t =
     (if syncing t then (Blocked, init_run t)
      else
        (let r = prepared e t;
             deletes = ops_of_kind Delete r;
             creates = ops_of_kind Create r;
             modifies = ops_of_kind Modify r;
             configOnDrive = drive_searchFiles e ConfigQuery;
             r1 = emit (SearchFiles ConfigQuery configOnDrive) r
         in case configOnDrive of
              None \<Rightarrow>
                (FetchFailed, emit (Notice ''An error occurred fetching Google Drive files.'') r1)
            | Some cfg \<Rightarrow>
                (case delete_phase e (deletes @ config_deletes e cfg) r1 of
                   (False, r2) \<Rightarrow> (DeleteFailed, r2)
                 | (True, r2) \<Rightarrow>
                     (Completed,
                      finish e
                        (modify_phase e modifies
                          (create_phase e creates
                            (emit (SetMessage (Literal ''Syncing (33%)'')) r2)))))))"

section \<open>The reversal resolver (\<open>ConfirmUndoModal\<close>)\<close>

text \<open>
  A rejected promise: reading a property of \<open>undefined\<close> throws a \<open>TypeError\<close>.
\<close>

datatype js_error = TypeError

text \<open>The constructor's \<open>filePathToId\<close> (lines 41--46).\<close>

definition filePathToId :: "obsidianGoogleDrive \<Rightarrow> (path \<times> drive_id) list" where
  "filePathToId t = fromEntries (map prod.swap (driveIdToPath (settings t)))"

text \<open>
  \<open>pathToFile[path]\<close> for each of the paths; \<open>None\<close> when one of them is not an own
  property of \<open>pathToFile\<close>. The value read is then \<open>undefined\<close> or a member of
  \<open>Object.prototype\<close>, none of which has a \<open>properties\<close> field, so that the first filter
  of \<open>handleDelete\<close> throws at \<open>.properties.path\<close>.
\<close>

fun lookup_all :: "(path \<times> drive_file) list \<Rightarrow> path list \<Rightarrow> (path \<times> drive_file) list option" where
  "lookup_all m [] = Some []"
| "lookup_all m (p # ps) =
     (case map_of m p of
        None \<Rightarrow> None
      | Some f \<Rightarrow> map_option ((#) (p, f)) (lookup_all m ps))"

text \<open>One leaf task of \<open>handleDelete\<close> (lines 86--100).\<close>

definition recreateFileTask ::
  "env \<Rightarrow> (path \<times> drive_id) list \<Rightarrow> path \<times> drive_file \<Rightarrow> run \<Rightarrow> run" where
  "recreateFileTask e ids pf r =
     (let i = obj_get ids (fst pf);
          onlineFile = drive_getFile e i;
          r1 = emit (GetFile i onlineFile) r
      in case onlineFile of
           None \<Rightarrow> emit (Notice ''An error occurred fetching Google Drive files.'') r1
         | Some content \<Rightarrow> emit (LocalCreateFile (fst pf) content (modifiedTime (snd pf))) r1)"

text \<open>
  \<open>handleDelete\<close> (lines 55--102). Both filters compare \<open>properties.path\<close> of the remote
  object with \<open>folderMimeType\<close>. \<open>t.createFolder\<close> and \<open>t.createFile\<close> act on the local
  tree.
\<close>

definition handleDelete :: "env \<Rightarrow> path list \<Rightarrow> run \<Rightarrow> js_error + run" where
  "handleDelete e paths r =
     (let files = drive_searchFiles e (PathsQuery paths);
          r1 = emit (SearchFiles (PathsQuery paths) files) r
      in case files of
           None \<Rightarrow> Inr (emit (Notice ''An error occurred fetching Google Drive files.'') r1)
         | Some fs \<Rightarrow>
             (case lookup_all (fromEntries (map (\<lambda>f. (properties_path f, f)) fs)) paths of
                None \<Rightarrow> Inl TypeError
              | Some pfs \<Rightarrow>
                  (let deletedFolders =
                         map fst (filter (\<lambda>(p, f). properties_path f = folderMimeType) pfs);
                       r2 = (if deletedFolders \<noteq> []
                             then fold (\<lambda>batch. fold (\<lambda>folder. emit (LocalCreateFolder folder)) batch)
                                    (foldersToBatches (\<lambda>p. p) deletedFolders) r1
                             else r1);
                       deletedFiles = filter (\<lambda>(p, f). properties_path f \<noteq> folderMimeType) pfs
                   in Inr (batchAsyncs
                             (map (recreateFileTask e (filePathToId (plugin r))) deletedFiles) r2))))"

text \<open>\<open>handleCreate\<close> (lines 104--108); \<open>t.deleteFile\<close> acts on the local tree.\<close>

definition handleCreate :: "env \<Rightarrow> path \<Rightarrow> run \<Rightarrow> run" where
  "handleCreate e p r =
     (case getAbstractFileByPath e p of
        None \<Rightarrow> r
      | Some file \<Rightarrow> emit (LocalDeleteFile (path file)) r)"

text \<open>\<open>handleModify\<close> (lines 110--122).\<close>

definition handleModify :: "env \<Rightarrow> path \<Rightarrow> run \<Rightarrow> run" where
  "handleModify e p r =
     (case getFileByPath e p of
        None \<Rightarrow> r
      | Some file \<Rightarrow>
          (let i = obj_get (filePathToId (plugin r)) p;
               onlineFile = drive_getFile e i;
               metadata = drive_getFileMetadata e i;
               r1 = emit (GetFileMetadata i metadata) (emit (GetFile i onlineFile) r)
           in case (onlineFile, metadata) of
                (Some content, Some mtime) \<Rightarrow> emit (LocalModifyFile (path file) content mtime) r1
              | _ \<Rightarrow> emit (Notice ''An error occurred fetching Google Drive files.'') r1))"

section \<open>Vocabulary of the statements\<close>

text \<open>
  The journaled paths of a list of entries at which the local tree holds a node of the
  given kind: what \<open>instanceof TFolder\<close> and \<open>instanceof TFile\<close> keep.
\<close>

definition local_paths :: "env \<Rightarrow> node_kind \<Rightarrow> (path \<times> kind) list \<Rightarrow> path list" where
  "local_paths e k ops = filter (\<lambda>p. vault_node e p = Some k) (map fst ops)"

text \<open>
  A view of a run: the events of its trace that \<open>g\<close> selects, in order, each reduced to
  what \<open>g\<close> keeps of it.
\<close>

definition project :: "(event \<Rightarrow> 'a option) \<Rightarrow> run \<Rightarrow> 'a list" where
  "project g r = List.map_filter g (trace r)"

text \<open>
  The path a remote call acts for: the \<open>path\<close> property given to \<open>createFolder\<close> and
  \<open>uploadFile\<close>, and the local file whose content \<open>updateFile\<close> sends.
\<close>

fun folder_call :: "event \<Rightarrow> path option" where
  "folder_call (CreateFolder _ _ p _) = Some p"
| "folder_call _ = None"

fun upload_call :: "event \<Rightarrow> path option" where
  "upload_call (UploadFile _ _ _ p _) = Some p"
| "upload_call _ = None"

fun update_call :: "event \<Rightarrow> path option" where
  "update_call (UpdateFile _ (Binary p) _) = Some p"
| "update_call _ = None"

text \<open>The same calls with the parent id or id they were given and the answer they got.\<close>

fun folder_ev :: "event \<Rightarrow> (path \<times> js_value \<times> drive_id option) option" where
  "folder_ev (CreateFolder _ par p res) = Some (p, par, res)"
| "folder_ev _ = None"

fun upload_ev :: "event \<Rightarrow> (path \<times> js_value \<times> drive_id option) option" where
  "upload_ev (UploadFile _ _ par p res) = Some (p, par, res)"
| "upload_ev _ = None"

fun update_ev :: "event \<Rightarrow> (path \<times> js_value \<times> drive_id option) option" where
  "update_ev (UpdateFile i (Binary p) res) = Some (p, i, res)"
| "update_ev _ = None"

text \<open>A bulk delete request: the values it carries, and the answer.\<close>

fun delete_call :: "event \<Rightarrow> (js_value list \<times> bool) option" where
  "delete_call (BatchDelete ids ok) = Some (ids, ok)"
| "delete_call _ = None"

text \<open>A successful creation: the id the remote side returned, and the path it is for.\<close>

fun created :: "event \<Rightarrow> (drive_id \<times> path) option" where
  "created (CreateFolder _ _ p (Some i)) = Some (i, p)"
| "created (UploadFile _ _ _ p (Some i)) = Some (i, p)"
| "created _ = None"

text \<open>
  The stage of a run a remote call belongs to: the pull, the bulk delete, the create
  phase, the modify phase, the persist step. Within the create phase, containers come
  before leaves.
\<close>

fun phase_rank :: "event \<Rightarrow> nat option" where
  "phase_rank (PullCall _) = Some 0"
| "phase_rank (BatchDelete _ _) = Some 1"
| "phase_rank (CreateFolder _ _ _ _) = Some 2"
| "phase_rank (UploadFile _ _ _ _ _) = Some 2"
| "phase_rank (UpdateFile _ (Binary _) _) = Some 3"
| "phase_rank (UpdateFile _ (Json _) _) = Some 4"
| "phase_rank _ = None"

fun create_step :: "event \<Rightarrow> nat option" where
  "create_step (CreateFolder _ _ _ _) = Some 0"
| "create_step (UploadFile _ _ _ _ _) = Some 1"
| "create_step _ = None"

text \<open>
  A notice that reports an error (every notice of \<open>push\<close> but the last one), and a
  remote call whose answer \<open>push\<close> tests and finds absent.
\<close>

fun error_notice :: "event \<Rightarrow> unit option" where
  "error_notice (Notice m) = (if m = ''Sync complete!'' then None else Some ())"
| "error_notice _ = None"

fun failed_call :: "event \<Rightarrow> unit option" where
  "failed_call (SearchFiles _ None) = Some ()"
| "failed_call (BatchDelete _ False) = Some ()"
| "failed_call (CreateFolder _ _ _ None) = Some ()"
| "failed_call (UploadFile _ _ _ _ None) = Some ()"
| "failed_call (UpdateFile _ (Binary _) None) = Some ()"
| "failed_call _ = None"

text \<open>A list of paths in which no path comes before its parent.\<close>

fun parents_first :: "path list \<Rightarrow> bool" where
  "parents_first [] = True"
| "parents_first (p # ps) = ((\<forall>q\<in>set ps. parentPath p \<noteq> Some q) \<and> parents_first ps)"

text \<open>The containers of a create phase in the order in which their tasks run.\<close>

definition folder_order :: "env \<Rightarrow> (path \<times> kind) list \<Rightarrow> path list" where
  "folder_order e creates = concat (foldersToBatches (\<lambda>p. p) (local_paths e TFolder creates))"

text \<open>The state in which the delete phase starts, and the deletes it is given.\<close>

definition searched :: "env \<Rightarrow> obsidianGoogleDrive \<Rightarrow> run" where
  "searched e t = emit (SearchFiles ConfigQuery (drive_searchFiles e ConfigQuery)) (prepared e t)"

definition all_deletes :: "env \<Rightarrow> obsidianGoogleDrive \<Rightarrow> (path \<times> kind) list" where
  "all_deletes e t =
     ops_of_kind Delete (prepared e t)
       @ config_deletes e (case drive_searchFiles e ConfigQuery of None \<Rightarrow> [] | Some cfg \<Rightarrow> cfg)"

text \<open>
  Invariants of the create phase. The lookup \<open>pathsToIds\<close> holds the id of every
  container created so far; every create call whose parent was created before it was
  given that parent's id; the Index maps an id that was returned for one path only to
  that path; and the error notices are as many as the failed calls. The first three are
  about the keys at which an assignment to the dictionary takes effect.
\<close>

definition lookup_sound :: "run \<Rightarrow> bool" where
  "lookup_sound r \<longleftrightarrow>
     (\<forall>fp par i. (fp, par, Some i) \<in> set (project folder_ev r) \<longrightarrow>
        assignable (pathsToIds r) fp \<longrightarrow> obj_get (pathsToIds r) fp = Str i)"

definition parents_resolved :: "run \<Rightarrow> bool" where
  "parents_resolved r \<longleftrightarrow>
     (\<forall>fp par i. (fp, par, Some i) \<in> set (project folder_ev r) \<longrightarrow>
        assignable (pathsToIds r) fp \<longrightarrow>
        (\<forall>gp par' res. (gp, par', res) \<in> set (project folder_ev r) \<union> set (project upload_ev r) \<longrightarrow>
           parentPath gp = Some fp \<longrightarrow> par' = Str i))"

definition index_sound :: "run \<Rightarrow> bool" where
  "index_sound r \<longleftrightarrow>
     (\<forall>i p. (i, p) \<in> set (project created r) \<longrightarrow>
        assignable (index_of r) i \<longrightarrow>
        (\<forall>p'. (i, p') \<in> set (project created r) \<longrightarrow> p' = p) \<longrightarrow>
        obj_get (index_of r) i = Str p)"

definition notices_match :: "run \<Rightarrow> bool" where
  "notices_match r \<longleftrightarrow> project error_notice r = project failed_call r"

section \<open>Concrete runs\<close>

text \<open>
  An environment in which \<open>pull\<close> changes nothing, the local tree is empty, the remote
  search finds no configuration object, the bulk delete succeeds and every other remote
  call fails. The environments below change it at single fields.
\<close>

definition quiet_env :: env where
  "quiet_env =
     \<lparr>pull_settings = (\<lambda>s. s),
      vault_node = (\<lambda>_. None),
      adapter_exists = (\<lambda>_. True),
      configDir = ''.obsidian'',
      drive_searchFiles = (\<lambda>_. Some []),
      drive_batchDelete = (\<lambda>_. True),
      drive_createFolder = (\<lambda>_ _ _. None),
      drive_uploadFile = (\<lambda>_ _ _ _. None),
      drive_updateFile = (\<lambda>_ _. None),
      drive_getFile = (\<lambda>_. None),
      drive_getFileMetadata = (\<lambda>_. None)\<rparr>"

definition plugin_with ::
  "(drive_id \<times> path) list \<Rightarrow> (path \<times> kind) list \<Rightarrow> obsidianGoogleDrive" where
  "plugin_with idx ops =
     \<lparr>syncing = False, settings = \<lparr>driveIdToPath = idx, operations = ops\<rparr>\<rparr>"

text \<open>The note \<open>notes/a.md\<close> exists locally; every remote update fails.\<close>

definition env_update_fails :: env where
  "env_update_fails =
     quiet_env\<lparr>vault_node := (\<lambda>p. if p = ''notes/a.md'' then Some TFile else None)\<rparr>"

text \<open>The search for configuration objects fails.\<close>

definition env_search_fails :: env where
  "env_search_fails = quiet_env\<lparr>drive_searchFiles := (\<lambda>_. None)\<rparr>"

text \<open>
  The remote side holds the folder \<open>docs\<close> under the id \<open>id1\<close>, and answers a content
  request for \<open>id1\<close>.
\<close>

definition remote_docs :: drive_file where
  "remote_docs =
     \<lparr>file_id = ''id1'', mimeType = folderMimeType, properties_path = ''docs'',
      modifiedTime = ''t1''\<rparr>"

definition env_remote_folder :: env where
  "env_remote_folder =
     quiet_env\<lparr>drive_searchFiles := (\<lambda>_. Some [remote_docs]),
               drive_getFile := (\<lambda>i. if i = Str ''id1'' then Some ''bytes'' else None)\<rparr>"

text \<open>
  The note \<open>a.md\<close> exists locally and every remote update succeeds; the Index of the
  plugin is empty, so neither journaled path resolves to an id.
\<close>

definition env_unresolved :: env where
  "env_unresolved =
     quiet_env\<lparr>vault_node := (\<lambda>p. if p = ''a.md'' then Some TFile else None),
               drive_updateFile := (\<lambda>_ _. Some ''u'')\<rparr>"

definition unresolved_plugin :: obsidianGoogleDrive where
  "unresolved_plugin = plugin_with [] [(''a.md'', Modify), (''old.md'', Delete)]"

definition unresolved_trace :: "event list" where
  "unresolved_trace =
     [StartSync, PullCall True, SearchFiles ConfigQuery (Some []),
      BatchDelete [Undefined] True,
      SetMessage (Literal ''Syncing (33%)''),
      UpdateFile Undefined (Binary ''a.md'') (Some ''u''),
      SetMessage (SyncMessage 66 99 1 1),
      UpdateFile Undefined
        (Json \<lparr>driveIdToPath = [], operations = [(''a.md'', Modify), (''old.md'', Delete)]\<rparr>)
        (Some ''u''),
      EndSync, Notice ''Sync complete!'']"

text \<open>
  The same with two journaled paths that are names of members of \<open>Object.prototype\<close>:
  the note \<open>toString\<close> exists locally and is journaled as modified, the path
  \<open>constructor\<close> is journaled as deleted, and the Index is empty.
\<close>

definition env_inherited :: env where
  "env_inherited =
     quiet_env\<lparr>vault_node := (\<lambda>p. if p = ''toString'' then Some TFile else None),
               drive_updateFile := (\<lambda>_ _. Some ''u'')\<rparr>"

definition inherited_plugin :: obsidianGoogleDrive where
  "inherited_plugin = plugin_with [] [(''toString'', Modify), (''constructor'', Delete)]"

definition inherited_trace :: "event list" where
  "inherited_trace =
     [StartSync, PullCall True, SearchFiles ConfigQuery (Some []),
      BatchDelete [Inherited ''constructor''] True,
      SetMessage (Literal ''Syncing (33%)''),
      UpdateFile (Inherited ''toString'') (Binary ''toString'') (Some ''u''),
      SetMessage (SyncMessage 66 99 1 1),
      UpdateFile Undefined
        (Json \<lparr>driveIdToPath = [],
               operations = [(''toString'', Modify), (''constructor'', Delete)]\<rparr>)
        (Some ''u''),
      EndSync, Notice ''Sync complete!'']"

text \<open>
  A local tree with the folders \<open>d\<close> and \<open>d/s\<close> and the notes \<open>d/s/n.md\<close> and \<open>a.md\<close>,
  and a remote side on which every call succeeds and every created object gets an id of
  its own. The journal lists the leaf before its folders, and two paths that no longer
  exist locally.
\<close>

definition env_tree :: env where
  "env_tree =
     quiet_env\<lparr>vault_node := (\<lambda>p. if p = ''d'' \<or> p = ''d/s'' then Some TFolder
                               else if p = ''d/s/n.md'' \<or> p = ''a.md'' then Some TFile
                               else None),
               drive_createFolder := (\<lambda>_ _ p. Some (''F:'' @ p)),
               drive_uploadFile := (\<lambda>_ _ _ p. Some (''U:'' @ p)),
               drive_updateFile := (\<lambda>_ _. Some ''ok'')\<rparr>"

definition tree_plugin :: obsidianGoogleDrive where
  "tree_plugin =
     plugin_with [(''ia'', ''a.md''), (''io'', ''old.md'')]
       [(''d/s/n.md'', Create), (''d/s'', Create), (''gone.md'', Create), (''d'', Create),
        (''a.md'', Modify), (''lost.md'', Modify), (''old.md'', Delete)]"

definition tree_index :: "(drive_id \<times> path) list" where
  "tree_index =
     [(''ia'', ''a.md''), (''io'', ''old.md''), (''F:d'', ''d''), (''F:d/s'', ''d/s''),
      (''U:d/s/n.md'', ''d/s/n.md'')]"

definition tree_trace :: "event list" where
  "tree_trace =
     [StartSync, PullCall True, SearchFiles ConfigQuery (Some []),
      BatchDelete [Str ''io''] True,
      SetMessage (Literal ''Syncing (33%)''),
      CreateFolder ''d'' Undefined ''d'' (Some ''F:d''),
      SetMessage (SyncMessage 33 66 1 4),
      CreateFolder ''s'' (Str ''F:d'') ''d/s'' (Some ''F:d/s''),
      SetMessage (SyncMessage 33 66 2 4),
      UploadFile (Binary ''d/s/n.md'') ''n.md'' (Str ''F:d/s'') ''d/s/n.md''
        (Some ''U:d/s/n.md''),
      SetMessage (SyncMessage 33 66 3 4),
      UpdateFile (Str ''ia'') (Binary ''a.md'') (Some ''ok''),
      SetMessage (SyncMessage 66 99 1 1),
      UpdateFile Undefined
        (Json \<lparr>driveIdToPath = tree_index, operations = operations (settings tree_plugin)\<rparr>)
        (Some ''ok''),
      EndSync, Notice ''Sync complete!'']"

definition tree_result :: run where
  "tree_result =
     \<lparr>plugin = plugin_with tree_index [],
      pathsToIds = [(''a.md'', ''ia''), (''old.md'', ''io''), (''d'', ''F:d''), (''d/s'', ''F:d/s'')],
      completed = 1,
      trace = tree_trace\<rparr>"

text \<open>
  The same remote side and a local tree with a folder named \<open>__proto__\<close> and the note
  \<open>__proto__/n.md\<close> in it, both journaled as created; the Index is empty. And the local
  tree of before with a remote side that answers a folder creation with the id
  \<open>__proto__\<close>.
\<close>

definition env_proto :: env where
  "env_proto =
     env_tree\<lparr>vault_node := (\<lambda>p. if p = ''__proto__'' then Some TFolder
                              else if p = ''__proto__/n.md'' then Some TFile
                              else None)\<rparr>"

definition proto_plugin :: obsidianGoogleDrive where
  "proto_plugin = plugin_with [] [(''__proto__'', Create), (''__proto__/n.md'', Create)]"

definition env_proto_id :: env where
  "env_proto_id = env_tree\<lparr>drive_createFolder := (\<lambda>_ _ _. Some ''__proto__'')\<rparr>"

definition proto_trace :: "event list" where
  "proto_trace =
     [StartSync, PullCall True, SearchFiles ConfigQuery (Some []),
      SetMessage (Literal ''Syncing (33%)''),
      CreateFolder ''__proto__'' Undefined ''__proto__'' (Some ''F:__proto__''),
      SetMessage (SyncMessage 33 66 1 2),
      UploadFile (Binary ''__proto__/n.md'') ''n.md'' (Inherited ''__proto__'') ''__proto__/n.md''
        (Some ''U:__proto__/n.md''),
      SetMessage (SyncMessage 33 66 2 2),
      UpdateFile Undefined
        (Json \<lparr>driveIdToPath =
                 [(''F:__proto__'', ''__proto__''), (''U:__proto__/n.md'', ''__proto__/n.md'')],
               operations = [(''__proto__'', Create), (''__proto__/n.md'', Create)]\<rparr>)
        (Some ''ok''),
      EndSync, Notice ''Sync complete!'']"


lemmas run_defs =
  push_def prepared_def init_run_def startSync_def endSync_def pull_def emit_def
  set_settings_def index_of_def journal_of_def ops_of_kind_def fromEntries_def
  config_deletes_def delete_phase_def create_phase_def modify_phase_def finish_def
  persist_def clear_operations_def batchAsyncs_def updateTask_def uploadTask_def
  createFolderTask_def createFolderBatches_def getFileByPath_def getAbstractFileByPath_def
  mk_node_def record_id_def delete_key_def lookup_parent_def
  obj_get_def obj_set_def assignable_def object_prototype_def

lemmas example_defs =
  quiet_env_def plugin_with_def env_update_fails_def env_search_fails_def
  env_remote_folder_def remote_docs_def

section \<open>How the steps change the state\<close>

text \<open>Reading a dictionary after an assignment to it.\<close>

lemma obj_get_obj_set_same:
  "assignable obj k \<Longrightarrow> obj_get (obj_set k v obj) k = Str v"
  by (simp add: obj_get_def obj_set_def update_conv')

lemma obj_get_obj_set_other:
  "k' \<noteq> k \<Longrightarrow> obj_get (obj_set k v obj) k' = obj_get obj k'"
  by (simp add: obj_get_def obj_set_def update_conv')

lemma assignable_obj_set [simp]:
  "assignable (obj_set k v obj) k' = assignable obj k'"
  by (auto simp: assignable_def obj_set_def update_conv')

lemma obj_get_own:
  "obj_get obj k = Str v \<longleftrightarrow> map_of obj k = Some v"
  by (simp add: obj_get_def split: option.splits)

lemma emit_simps [simp]:
  "plugin (emit ev r) = plugin r"
  "pathsToIds (emit ev r) = pathsToIds r"
  "completed (emit ev r) = completed r"
  "trace (emit ev r) = trace r @ [ev]"
  "index_of (emit ev r) = index_of r"
  "journal_of (emit ev r) = journal_of r"
  by (simp_all add: emit_def index_of_def journal_of_def)

lemma record_id_simps [simp]:
  "syncing (plugin (record_id i p r)) = syncing (plugin r)"
  "pathsToIds (record_id i p r) = pathsToIds r"
  "completed (record_id i p r) = completed r"
  "trace (record_id i p r) = trace r"
  "index_of (record_id i p r) = obj_set i p (index_of r)"
  "journal_of (record_id i p r) = journal_of r"
  by (simp_all add: record_id_def set_settings_def index_of_def journal_of_def)

lemma delete_key_simps [simp]:
  "syncing (plugin (delete_key k r)) = syncing (plugin r)"
  "pathsToIds (delete_key k r) = pathsToIds r"
  "completed (delete_key k r) = completed r"
  "trace (delete_key k r) = trace r"
  "index_of (delete_key k r) = AList.delete k (index_of r)"
  "journal_of (delete_key k r) = journal_of r"
  by (simp_all add: delete_key_def set_settings_def index_of_def journal_of_def)

lemma field_update_simps [simp]:
  "index_of (r\<lparr>completed := n\<rparr>) = index_of r"
  "journal_of (r\<lparr>completed := n\<rparr>) = journal_of r"
  "index_of (r\<lparr>pathsToIds := m\<rparr>) = index_of r"
  "journal_of (r\<lparr>pathsToIds := m\<rparr>) = journal_of r"
  by (simp_all add: index_of_def journal_of_def)

lemma batchAsyncs_Nil [simp]: "batchAsyncs [] r = r"
  by (simp add: batchAsyncs_def)

lemma batchAsyncs_Cons [simp]: "batchAsyncs (task # tasks) r = batchAsyncs tasks (task r)"
  by (simp add: batchAsyncs_def)

lemma batchAsyncs_append [simp]:
  "batchAsyncs (ts @ us) r = batchAsyncs us (batchAsyncs ts r)"
  by (simp add: batchAsyncs_def)

text \<open>What every task of a batch keeps, the batch keeps.\<close>

lemma batchAsyncs_keeps:
  assumes "\<And>task r. task \<in> set tasks \<Longrightarrow> f (task r) = f r"
  shows "f (batchAsyncs tasks r) = f r"
  using assms by (induction tasks arbitrary: r) simp_all

lemma modify_files:
  "map the (filter (\<lambda>f. f \<noteq> None) (map (\<lambda>(p, _). getFileByPath e p) ops))
     = map (\<lambda>p. mk_node p TFile) (local_paths e TFile ops)"
  by (induction ops)
     (auto simp: local_paths_def getFileByPath_def split: option.splits node_kind.splits)

lemma create_files:
  "map the (filter (\<lambda>f. map_option kind_of f = Some k)
       (map (\<lambda>(p, _). getAbstractFileByPath e p) ops))
     = map (\<lambda>p. mk_node p k) (local_paths e k ops)"
  by (induction ops)
     (auto simp: local_paths_def getAbstractFileByPath_def mk_node_def split: option.splits)

text \<open>The two phases over the paths that exist locally.\<close>

lemma modify_phase_alt:
  "modify_phase e modifies r =
     (if modifies = [] then r
      else batchAsyncs
             (map (\<lambda>p. updateTask e (fromEntries (map prod.swap (index_of r)))
                          (length (local_paths e TFile modifies)) (mk_node p TFile))
                (local_paths e TFile modifies))
             (r\<lparr>completed := 0\<rparr>))"
  unfolding modify_phase_def Let_def modify_files by (simp add: comp_def)

lemma create_phase_alt:
  "create_phase e creates r =
     (if creates = [] then r
      else batchAsyncs
             (map (\<lambda>p. uploadTask e (length creates) (mk_node p TFile))
                (local_paths e TFile creates))
             (createFolderBatches e (length creates)
                (foldersToBatches path
                   (map (\<lambda>p. mk_node p TFolder) (local_paths e TFolder creates)))
                (r\<lparr>completed := 0\<rparr>)))"
proof -
  have "createFolderBatches e n (foldersToBatches path []) r' = r'" for n r'
    by (simp add: createFolderBatches_def foldersToBatches_def)
  then show ?thesis
    unfolding create_phase_def Let_def create_files by (simp add: comp_def)
qed

lemma updateTask_frame [simp]:
  "plugin (updateTask e m n file r) = plugin r"
  "pathsToIds (updateTask e m n file r) = pathsToIds r"
  by (simp_all add: updateTask_def Let_def split: option.splits)

lemma modify_phase_pathsToIds: "pathsToIds (modify_phase e modifies r) = pathsToIds r"
proof (cases "modifies = []")
  case True
  then show ?thesis by (simp add: modify_phase_alt)
next
  case False
  have "pathsToIds (batchAsyncs (map (\<lambda>p. updateTask e m n (mk_node p TFile)) ps) r') = pathsToIds r'"
    for m n ps r'
    by (rule batchAsyncs_keeps) auto
  with False show ?thesis by (simp add: modify_phase_alt)
qed

lemma modify_phase_plugin: "plugin (modify_phase e modifies r) = plugin r"
proof (cases "modifies = []")
  case True
  then show ?thesis by (simp add: modify_phase_alt)
next
  case False
  have "plugin (batchAsyncs (map (\<lambda>p. updateTask e m n (mk_node p TFile)) ps) r') = plugin r'"
    for m n ps r'
    by (rule batchAsyncs_keeps) auto
  with False show ?thesis by (simp add: modify_phase_alt)
qed

section \<open>The trace, view by view\<close>

lemma map_filter_append: "List.map_filter g (xs @ ys) = List.map_filter g xs @ List.map_filter g ys"
  by (simp add: List.map_filter_def)

lemma project_emit [simp]:
  "project g (emit ev r) = project g r @ (case g ev of None \<Rightarrow> [] | Some y \<Rightarrow> [y])"
  by (simp add: project_def map_filter_append List.map_filter_simps split: option.splits)

lemma project_frame [simp]:
  "project g (record_id i p r) = project g r"
  "project g (delete_key k r) = project g r"
  "project g (r\<lparr>completed := n\<rparr>) = project g r"
  "project g (r\<lparr>pathsToIds := m\<rparr>) = project g r"
  by (simp_all add: project_def)

lemma batchAsyncs_project:
  assumes "\<And>x r. x \<in> set xs \<Longrightarrow> project g (T x r) = project g r @ h x"
  shows "project g (batchAsyncs (map T xs) r) = project g r @ concat (map h xs)"
  using assms by (induction xs arbitrary: r) simp_all

lemma createFolderTask_project:
  "project g (createFolderTask e n f r) =
     project g r
       @ (case g (CreateFolder (name f) (lookup_parent r f) (path f)
                    (drive_createFolder e (name f) (lookup_parent r f) (path f))) of
            None \<Rightarrow> [] | Some y \<Rightarrow> [y])
       @ (case drive_createFolder e (name f) (lookup_parent r f) (path f) of
            None \<Rightarrow> (case g (Notice ''Error creating folders.'') of None \<Rightarrow> [] | Some y \<Rightarrow> [y])
          | Some i \<Rightarrow> (case g (SetMessage (SyncMessage 33 66 (Suc (completed r)) n)) of
                         None \<Rightarrow> [] | Some y \<Rightarrow> [y]))"
  by (simp add: createFolderTask_def Let_def split: option.splits)

lemma createFolderTask_calls [simp]:
  "project folder_call (createFolderTask e n f r) = project folder_call r @ [path f]"
  "project upload_call (createFolderTask e n f r) = project upload_call r"
  "project update_call (createFolderTask e n f r) = project update_call r"
  "project phase_rank (createFolderTask e n f r) = project phase_rank r @ [2]"
  by (simp_all add: createFolderTask_project split: option.splits)

lemma uploadTask_project:
  "project g (uploadTask e n f r) =
     project g r
       @ (case g (UploadFile (Binary (path f)) (name f) (lookup_parent r f) (path f)
                    (drive_uploadFile e (Binary (path f)) (name f) (lookup_parent r f) (path f))) of
            None \<Rightarrow> [] | Some y \<Rightarrow> [y])
       @ (case drive_uploadFile e (Binary (path f)) (name f) (lookup_parent r f) (path f) of
            None \<Rightarrow> (case g (Notice ''Error uploading file.'') of None \<Rightarrow> [] | Some y \<Rightarrow> [y])
          | Some i \<Rightarrow> (case g (SetMessage (SyncMessage 33 66 (Suc (completed r)) n)) of
                         None \<Rightarrow> [] | Some y \<Rightarrow> [y]))"
  by (simp add: uploadTask_def Let_def split: option.splits)

lemma uploadTask_calls [simp]:
  "project folder_call (uploadTask e n f r) = project folder_call r"
  "project upload_call (uploadTask e n f r) = project upload_call r @ [path f]"
  "project update_call (uploadTask e n f r) = project update_call r"
  "project phase_rank (uploadTask e n f r) = project phase_rank r @ [2]"
  by (simp_all add: uploadTask_project split: option.splits)

lemma updateTask_project:
  "project g (updateTask e m n f r) =
     project g r
       @ (case g (UpdateFile (obj_get m (path f)) (Binary (path f))
                    (drive_updateFile e (obj_get m (path f)) (Binary (path f)))) of
            None \<Rightarrow> [] | Some y \<Rightarrow> [y])
       @ (case drive_updateFile e (obj_get m (path f)) (Binary (path f)) of
            None \<Rightarrow> (case g (Notice ''Error modifying file.'') of None \<Rightarrow> [] | Some y \<Rightarrow> [y])
          | Some i \<Rightarrow> (case g (SetMessage (SyncMessage 66 99 (Suc (completed r)) n)) of
                         None \<Rightarrow> [] | Some y \<Rightarrow> [y]))"
  by (simp add: updateTask_def Let_def split: option.splits)

lemma updateTask_calls [simp]:
  "project folder_call (updateTask e m n f r) = project folder_call r"
  "project upload_call (updateTask e m n f r) = project upload_call r"
  "project update_call (updateTask e m n f r) = project update_call r @ [path f]"
  "project phase_rank (updateTask e m n f r) = project phase_rank r @ [3]"
  by (simp_all add: updateTask_project split: option.splits)

lemma createFolderBatches_concat:
  "createFolderBatches e n batches r = batchAsyncs (map (createFolderTask e n) (concat batches)) r"
  unfolding createFolderBatches_def
  by (induction batches arbitrary: r) simp_all

lemma path_mk_node [simp]:
  "path (mk_node p k) = p" "parent (mk_node p k) = parentPath p" "kind_of (mk_node p k) = k"
  "name (mk_node p k) = nameOfPath p"
  by (simp_all add: mk_node_def)

lemma depthIn_key: "map (\<lambda>x. depthIn (map key xs) (key x)) xs = map (depthIn (map key xs)) (map key xs)"
  by simp

lemma foldersToBatches_map:
  "map (map key) (foldersToBatches key xs) = foldersToBatches (\<lambda>p. p) (map key xs)"
  by (simp add: foldersToBatches_def filter_map comp_def)

lemma folder_order_nodes:
  "map path (concat (foldersToBatches path (map (\<lambda>p. mk_node p TFolder) ps)))
     = concat (foldersToBatches (\<lambda>p. p) ps)"
proof -
  have "map path (concat (foldersToBatches path xs)) = concat (map (map path) (foldersToBatches path xs))" for xs :: "tnode list"
    by (simp add: map_concat)
  then show ?thesis
    by (simp add: foldersToBatches_map comp_def)
qed

lemma create_phase_seq:
  "create_phase e creates r =
     (if creates = [] then r
      else batchAsyncs
             (map (\<lambda>p. uploadTask e (length creates) (mk_node p TFile))
                (local_paths e TFile creates))
             (batchAsyncs
                (map (createFolderTask e (length creates))
                   (concat (foldersToBatches path
                      (map (\<lambda>p. mk_node p TFolder) (local_paths e TFolder creates)))))
                (r\<lparr>completed := 0\<rparr>)))"
  by (simp add: create_phase_alt createFolderBatches_concat)

lemma create_phase_calls:
  "project folder_call (create_phase e creates r) = project folder_call r @ folder_order e creates"
  "project upload_call (create_phase e creates r) = project upload_call r @ local_paths e TFile creates"
  "project update_call (create_phase e creates r) = project update_call r"
proof -
  let ?fs = "concat (foldersToBatches path (map (\<lambda>p. mk_node p TFolder) (local_paths e TFolder creates)))"
  let ?r1 = "batchAsyncs (map (createFolderTask e (length creates)) ?fs) (r\<lparr>completed := 0\<rparr>)"
  have f1: "project folder_call ?r1 = project folder_call r @ concat (map (\<lambda>f. [path f]) ?fs)"
    using batchAsyncs_project [of ?fs folder_call "createFolderTask e (length creates)" "\<lambda>f. [path f]" "r\<lparr>completed := 0\<rparr>"]
    by simp
  have f2: "project upload_call ?r1 = project upload_call r @ concat (map (\<lambda>f. []) ?fs)"
    using batchAsyncs_project [of ?fs upload_call "createFolderTask e (length creates)" "\<lambda>f. []" "r\<lparr>completed := 0\<rparr>"]
    by simp
  have f3: "project update_call ?r1 = project update_call r @ concat (map (\<lambda>f. []) ?fs)"
    using batchAsyncs_project [of ?fs update_call "createFolderTask e (length creates)" "\<lambda>f. []" "r\<lparr>completed := 0\<rparr>"]
    by simp
  have c1: "concat (map (\<lambda>f. [path f]) ?fs) = folder_order e creates"
    using folder_order_nodes [of "local_paths e TFolder creates"]
    by (simp add: folder_order_def concat_map_singleton)
  have u1: "project folder_call (batchAsyncs (map (\<lambda>p. uploadTask e n (mk_node p TFile)) ps) r')
              = project folder_call r' @ concat (map (\<lambda>p. []) ps)" for n ps r'
    by (rule batchAsyncs_project) simp
  have u2: "project upload_call (batchAsyncs (map (\<lambda>p. uploadTask e n (mk_node p TFile)) ps) r')
              = project upload_call r' @ concat (map (\<lambda>p. [p]) ps)" for n ps r'
    by (rule batchAsyncs_project) simp
  have u3: "project update_call (batchAsyncs (map (\<lambda>p. uploadTask e n (mk_node p TFile)) ps) r')
              = project update_call r' @ concat (map (\<lambda>p. []) ps)" for n ps r'
    by (rule batchAsyncs_project) simp
  have e0: "folder_order e [] = []" "local_paths e k [] = []" for k
    by (simp_all add: folder_order_def local_paths_def foldersToBatches_def)
  show "project folder_call (create_phase e creates r) = project folder_call r @ folder_order e creates"
    using f1 c1 u1 e0 by (simp add: create_phase_seq)
  show "project upload_call (create_phase e creates r) = project upload_call r @ local_paths e TFile creates"
    using f2 u2 e0 by (simp add: create_phase_seq)
  show "project update_call (create_phase e creates r) = project update_call r"
    using f3 u3 by (simp add: create_phase_seq)
qed

lemma sorted_const: "\<forall>k\<in>set ks. k = c \<Longrightarrow> sorted (ks :: nat list)"
  by (induction ks) auto

lemma create_phase_ranks:
  "\<exists>ks. project phase_rank (create_phase e creates r) = project phase_rank r @ ks \<and> (\<forall>k\<in>set ks. k = 2)"
proof -
  have a: "project phase_rank (batchAsyncs (map (createFolderTask e n) fs) r')
             = project phase_rank r' @ concat (map (\<lambda>f. [2]) fs)" for n fs r'
    by (rule batchAsyncs_project) simp
  have b: "project phase_rank (batchAsyncs (map (\<lambda>p. uploadTask e n (mk_node p TFile)) ps) r')
             = project phase_rank r' @ concat (map (\<lambda>p. [2]) ps)" for n ps r'
    by (rule batchAsyncs_project) simp
  show ?thesis
    by (auto simp: create_phase_seq a b)
qed

lemma modify_phase_ranks:
  "\<exists>ks. project phase_rank (modify_phase e modifies r) = project phase_rank r @ ks \<and> (\<forall>k\<in>set ks. k = 3)"
proof -
  have a: "project phase_rank (batchAsyncs (map (\<lambda>p. updateTask e m n (mk_node p TFile)) ps) r')
             = project phase_rank r' @ concat (map (\<lambda>p. [3]) ps)" for m n ps r'
    by (rule batchAsyncs_project) simp
  show ?thesis
    by (auto simp: modify_phase_alt a)
qed

lemma modify_phase_calls:
  "project folder_call (modify_phase e modifies r) = project folder_call r"
  "project upload_call (modify_phase e modifies r) = project upload_call r"
  "project update_call (modify_phase e modifies r) = project update_call r @ local_paths e TFile modifies"
proof -
  have a: "project folder_call (batchAsyncs (map (\<lambda>p. updateTask e m n (mk_node p TFile)) ps) r')
             = project folder_call r' @ concat (map (\<lambda>p. []) ps)" for m n ps r'
    by (rule batchAsyncs_project) simp
  have b: "project upload_call (batchAsyncs (map (\<lambda>p. updateTask e m n (mk_node p TFile)) ps) r')
             = project upload_call r' @ concat (map (\<lambda>p. []) ps)" for m n ps r'
    by (rule batchAsyncs_project) simp
  have c: "project update_call (batchAsyncs (map (\<lambda>p. updateTask e m n (mk_node p TFile)) ps) r')
             = project update_call r' @ concat (map (\<lambda>p. [p]) ps)" for m n ps r'
    by (rule batchAsyncs_project) simp
  have e0: "local_paths e k [] = []" for k
    by (simp add: local_paths_def)
  show "project folder_call (modify_phase e modifies r) = project folder_call r"
    by (simp add: modify_phase_alt a)
  show "project upload_call (modify_phase e modifies r) = project upload_call r"
    by (simp add: modify_phase_alt b)
  show "project update_call (modify_phase e modifies r) = project update_call r @ local_paths e TFile modifies"
    by (simp add: modify_phase_alt c e0)
qed

lemma push_cases:
  obtains
    (Blocked) "syncing t" "push e t = (Blocked, init_run t)"
  | (FetchFailed) "\<not> syncing t" "drive_searchFiles e ConfigQuery = None"
      "push e t =
         (FetchFailed, emit (Notice ''An error occurred fetching Google Drive files.'') (searched e t))"
  | (DeleteFailed) r2 where "\<not> syncing t" "drive_searchFiles e ConfigQuery \<noteq> None"
      "delete_phase e (all_deletes e t) (searched e t) = (False, r2)"
      "push e t = (DeleteFailed, r2)"
  | (Completed) r2 where "\<not> syncing t" "drive_searchFiles e ConfigQuery \<noteq> None"
      "delete_phase e (all_deletes e t) (searched e t) = (True, r2)"
      "push e t =
         (Completed,
          finish e
            (modify_phase e (ops_of_kind Modify (prepared e t))
              (create_phase e (ops_of_kind Create (prepared e t))
                (emit (SetMessage (Literal ''Syncing (33%)'')) r2))))"
proof (cases "syncing t")
  case True
  then show ?thesis using Blocked by (simp add: push_def)
next
  case ns: False
  show ?thesis
  proof (cases "drive_searchFiles e ConfigQuery")
    case None
    with ns show ?thesis using FetchFailed by (simp add: push_def searched_def Let_def)
  next
    case (Some cfg)
    obtain b r2 where d: "delete_phase e (all_deletes e t) (searched e t) = (b, r2)"
      by (cases "delete_phase e (all_deletes e t) (searched e t)")
    show ?thesis
    proof (cases b)
      case True
      with ns Some d show ?thesis
        using Completed [of r2] by (simp add: push_def searched_def all_deletes_def Let_def)
    next
      case False
      with ns Some d show ?thesis
        using DeleteFailed [of r2] by (simp add: push_def searched_def all_deletes_def Let_def)
    qed
  qed
qed

text \<open>The delete phase, by its two answers.\<close>

lemma fold_delete_key:
  "trace (fold (\<lambda>(p, _). delete_key p) ds r) = trace r"
  "pathsToIds (fold (\<lambda>(p, _). delete_key p) ds r) = pathsToIds r"
  "journal_of (fold (\<lambda>(p, _). delete_key p) ds r) = journal_of r"
  "syncing (plugin (fold (\<lambda>(p, _). delete_key p) ds r)) = syncing (plugin r)"
  "completed (fold (\<lambda>(p, _). delete_key p) ds r) = completed r"
  by (induction ds arbitrary: r; simp add: case_prod_beta)+

lemma delete_phase_False:
  assumes "delete_phase e ds r = (False, r2)"
  shows "ds \<noteq> []"
    and "\<not> drive_batchDelete e (map (\<lambda>(p, _). obj_get (pathsToIds r) p) ds)"
    and "r2 = emit (Notice ''An error occurred deleting Google Drive files.'')
               (emit (BatchDelete (map (\<lambda>(p, _). obj_get (pathsToIds r) p) ds) False) r)"
  using assms by (auto simp: delete_phase_def Let_def split: if_splits)

lemma delete_phase_True:
  assumes "delete_phase e ds r = (True, r2)"
  shows "ds = [] \<or> drive_batchDelete e (map (\<lambda>(p, _). obj_get (pathsToIds r) p) ds)"
    and "trace r2 = trace r @ (if ds = [] then []
                               else [BatchDelete (map (\<lambda>(p, _). obj_get (pathsToIds r) p) ds) True])"
    and "pathsToIds r2 = pathsToIds r"
    and "journal_of r2 = journal_of r"
    and "syncing (plugin r2) = syncing (plugin r)"
  using assms by (auto simp: delete_phase_def Let_def fold_delete_key split: if_splits)

lemma project_trace: "project g r = List.map_filter g (trace r)"
  by (simp add: project_def)

lemma prepared_simps [simp]:
  "trace (prepared e t) = [StartSync, PullCall True]"
  "journal_of (prepared e t) = operations (pull_settings e (settings t))"
  "index_of (prepared e t) = driveIdToPath (pull_settings e (settings t))"
  "settings (plugin (prepared e t)) = pull_settings e (settings t)"
  "syncing (plugin (prepared e t)) = True"
  "pathsToIds (prepared e t) = fromEntries (map prod.swap (driveIdToPath (pull_settings e (settings t))))"
  by (simp_all add: prepared_def Let_def pull_def startSync_def init_run_def set_settings_def
        emit_def journal_of_def index_of_def)

lemma searched_simps [simp]:
  "trace (searched e t) = [StartSync, PullCall True, SearchFiles ConfigQuery (drive_searchFiles e ConfigQuery)]"
  "plugin (searched e t) = plugin (prepared e t)"
  "pathsToIds (searched e t) = pathsToIds (prepared e t)"
  "journal_of (searched e t) = journal_of (prepared e t)"
  "index_of (searched e t) = index_of (prepared e t)"
  by (simp_all add: searched_def)

lemma task_frames [simp]:
  "journal_of (createFolderTask e n f r) = journal_of r"
  "syncing (plugin (createFolderTask e n f r)) = syncing (plugin r)"
  "journal_of (uploadTask e n f r) = journal_of r"
  "syncing (plugin (uploadTask e n f r)) = syncing (plugin r)"
  "pathsToIds (uploadTask e n f r) = pathsToIds r"
  by (simp_all add: createFolderTask_def uploadTask_def Let_def split: option.splits)

lemma create_phase_frame:
  "journal_of (create_phase e creates r) = journal_of r"
  "syncing (plugin (create_phase e creates r)) = syncing (plugin r)"
proof -
  have a: "journal_of (batchAsyncs (map (createFolderTask e n) fs) r') = journal_of r'" for n fs r'
    by (rule batchAsyncs_keeps) auto
  have b: "journal_of (batchAsyncs (map (\<lambda>p. uploadTask e n (mk_node p TFile)) ps) r') = journal_of r'"
    for n ps r'
    by (rule batchAsyncs_keeps) auto
  have c: "syncing (plugin (batchAsyncs (map (createFolderTask e n) fs) r')) = syncing (plugin r')"
    for n fs r'
    by (rule batchAsyncs_keeps [where f = "\<lambda>r. syncing (plugin r)"]) auto
  have d: "syncing (plugin (batchAsyncs (map (\<lambda>p. uploadTask e n (mk_node p TFile)) ps) r'))
             = syncing (plugin r')" for n ps r'
    by (rule batchAsyncs_keeps [where f = "\<lambda>r. syncing (plugin r)"]) auto
  show "journal_of (create_phase e creates r) = journal_of r"
    by (simp add: create_phase_seq a b)
  show "syncing (plugin (create_phase e creates r)) = syncing (plugin r)"
    by (simp add: create_phase_seq c d)
qed

lemma modify_phase_frame [simp]:
  "journal_of (modify_phase e modifies r) = journal_of r"
  "index_of (modify_phase e modifies r) = index_of r"
  by (simp_all add: journal_of_def index_of_def modify_phase_plugin)

lemma finish_simps:
  "trace (finish e r) =
     trace r @ [UpdateFile (obj_get (pathsToIds r) (configDir e @ ''/plugins/google-drive-sync/data.json''))
                  (Json (settings (plugin r)))
                  (drive_updateFile e
                     (obj_get (pathsToIds r) (configDir e @ ''/plugins/google-drive-sync/data.json''))
                     (Json (settings (plugin r)))),
                EndSync, Notice ''Sync complete!'']"
  "journal_of (finish e r) = []"
  "index_of (finish e r) = index_of r"
  "syncing (plugin (finish e r)) = False"
  "pathsToIds (finish e r) = pathsToIds r"
  by (simp_all add: finish_def persist_def clear_operations_def endSync_def set_settings_def
        emit_def Let_def journal_of_def index_of_def)

text \<open>Every step only appends to the trace.\<close>

lemma task_prefix [simp]:
  "prefix (trace r) (trace (createFolderTask e n f r))"
  "prefix (trace r) (trace (uploadTask e n f r))"
  "prefix (trace r) (trace (updateTask e m n f r))"
  by (simp_all add: createFolderTask_def uploadTask_def updateTask_def Let_def split: option.splits)

lemma batchAsyncs_prefix:
  assumes "\<And>task r. task \<in> set tasks \<Longrightarrow> prefix (trace r) (trace (task r))"
  shows "prefix (trace r) (trace (batchAsyncs tasks r))"
  using assms
proof (induction tasks arbitrary: r)
  case Nil
  then show ?case by simp
next
  case (Cons task tasks)
  have "prefix (trace r) (trace (task r))" using Cons.prems by simp
  also have "prefix (trace (task r)) (trace (batchAsyncs tasks (task r)))"
    using Cons by simp
  finally show ?case by simp
qed

lemma create_phase_prefix: "prefix (trace r) (trace (create_phase e creates r))"
proof -
  have a: "prefix (trace r') (trace (batchAsyncs (map (createFolderTask e n) fs) r'))" for n fs r'
    by (rule batchAsyncs_prefix) auto
  have b: "prefix (trace r') (trace (batchAsyncs (map (\<lambda>p. uploadTask e n (mk_node p TFile)) ps) r'))"
    for n ps r'
    by (rule batchAsyncs_prefix) auto
  let ?r1 = "batchAsyncs (map (createFolderTask e (length creates))
               (concat (foldersToBatches path
                  (map (\<lambda>p. mk_node p TFolder) (local_paths e TFolder creates)))))
               (r\<lparr>completed := 0\<rparr>)"
  have "prefix (trace (r\<lparr>completed := 0\<rparr>)) (trace ?r1)" by (rule a)
  also have "prefix (trace ?r1)
               (trace (batchAsyncs (map (\<lambda>p. uploadTask e (length creates) (mk_node p TFile))
                  (local_paths e TFile creates)) ?r1))"
    by (rule b)
  finally show ?thesis by (simp add: create_phase_seq)
qed

lemma modify_phase_prefix: "prefix (trace r) (trace (modify_phase e modifies r))"
proof -
  have a: "prefix (trace r') (trace (batchAsyncs (map (\<lambda>p. updateTask e m n (mk_node p TFile)) ps) r'))"
    for m n ps r'
    by (rule batchAsyncs_prefix) auto
  show ?thesis
    unfolding modify_phase_alt using a [of "r\<lparr>completed := 0\<rparr>"] by simp
qed

lemma delete_phase_prefix:
  "delete_phase e ds r = (b, r2) \<Longrightarrow> prefix (trace r) (trace r2)"
  by (auto simp: delete_phase_def Let_def fold_delete_key split: if_splits)

text \<open>The ranks of a completed run up to the persist step.\<close>

lemma ranks_before_finish:
  assumes "delete_phase e ds (searched e t) = (True, r2)"
  shows "\<exists>ks. project phase_rank
                 (modify_phase e ms (create_phase e cs (emit (SetMessage m) r2))) = 0 # ks
              \<and> sorted ks \<and> (\<forall>k\<in>set ks. k \<in> {1, 2, 3})"
proof -
  let ?r3 = "emit (SetMessage m) r2"
  obtain k2 where k2: "project phase_rank (create_phase e cs ?r3) = project phase_rank ?r3 @ k2"
      "\<forall>k\<in>set k2. k = 2"
    using create_phase_ranks by blast
  obtain k3 where k3: "project phase_rank (modify_phase e ms (create_phase e cs ?r3))
                         = project phase_rank (create_phase e cs ?r3) @ k3" "\<forall>k\<in>set k3. k = 3"
    using modify_phase_ranks by blast
  have r3: "project phase_rank ?r3 = 0 # (if ds = [] then [] else [1])"
    using delete_phase_True(2) [OF assms]
    by (simp add: project_trace map_filter_append List.map_filter_simps)
  have "sorted k2" "sorted k3"
    using k2(2) k3(2) sorted_const by blast+
  then have "sorted ((if ds = [] then [] else [1]) @ k2 @ k3)"
    using k2(2) k3(2) by (force simp: sorted_append)
  moreover have "\<forall>k\<in>set ((if ds = [] then [] else [1]) @ k2 @ k3). k \<in> {1, 2, 3}"
    using k2(2) k3(2) by auto
  ultimately show ?thesis
    using k2(1) k3(1) r3 by (intro exI [of _ "(if ds = [] then [] else [1]) @ k2 @ k3"]) simp
qed

lemma project_member: "ev \<in> set (trace r) \<Longrightarrow> g ev = Some y \<Longrightarrow> y \<in> set (project g r)"
  by (force simp: project_def List.map_filter_def)

lemma project_memberD: "y \<in> set (project g r) \<Longrightarrow> \<exists>ev\<in>set (trace r). g ev = Some y"
  by (auto simp: project_def List.map_filter_def)

section \<open>The order the Hierarchy Batcher gives\<close>

lemma fold_max_ge_init: "a \<le> fold max xs (a::nat)"
  by (induction xs arbitrary: a) (auto intro: order_trans [OF max.cobounded2])

lemma fold_max_ge: "x \<in> set xs \<Longrightarrow> x \<le> fold max xs (a::nat)"
proof (induction xs arbitrary: a)
  case Nil
  then show ?case by simp
next
  case (Cons y ys)
  then show ?case
    using fold_max_ge_init [of "max y a" ys] by auto
qed

lemma buckets_set:
  "set (concat (map (\<lambda>d. filter (\<lambda>x. D x = d) ps) [0 ..< n])) = {x \<in> set ps. D x < n}"
  by auto

lemma buckets_distinct:
  "distinct ps \<Longrightarrow> distinct (concat (map (\<lambda>d. filter (\<lambda>x. D x = d) ps) [0 ..< n]))"
proof (induction n)
  case 0
  then show ?case by simp
next
  case (Suc n)
  then show ?case
    using buckets_set [of D ps n] by (auto simp del: set_concat)
qed

lemma buckets_sorted:
  "sorted (map D (concat (map (\<lambda>d. filter (\<lambda>x. D x = d) ps) [0 ..< n])))"
proof (induction n)
  case 0
  then show ?case by simp
next
  case (Suc n)
  have "sorted (map D (filter (\<lambda>x. D x = n) ps))"
    by (rule sorted_const [of _ n]) auto
  with Suc show ?case
    using buckets_set [of D ps n] by (force simp: sorted_append simp del: set_concat)
qed

lemma folder_order_eq:
  "concat (foldersToBatches (\<lambda>p. p) ps) =
     concat (map (\<lambda>d. filter (\<lambda>x. depthIn ps x = d) ps)
       [0 ..< (if ps = [] then 0 else Suc (fold max (map (depthIn ps) ps) 0))])"
  by (simp add: foldersToBatches_def)

lemma set_folder_order: "set (concat (foldersToBatches (\<lambda>p. p) ps)) = set ps"
proof (cases "ps = []")
  case True
  then show ?thesis by (simp add: foldersToBatches_def)
next
  case False
  have "depthIn ps x < Suc (fold max (map (depthIn ps) ps) 0)" if "x \<in> set ps" for x
    using fold_max_ge [of "depthIn ps x" "map (depthIn ps) ps" 0] that by (simp add: less_Suc_eq_le)
  then show ?thesis
    unfolding folder_order_eq buckets_set using False by auto
qed

lemma distinct_folder_order: "distinct ps \<Longrightarrow> distinct (concat (foldersToBatches (\<lambda>p. p) ps))"
  unfolding folder_order_eq by (rule buckets_distinct)

lemma sorted_folder_order:
  "sorted (map (depthIn ps) (concat (foldersToBatches (\<lambda>p. p) ps)))"
  unfolding folder_order_eq by (rule buckets_sorted)

lemma depthIn_cong: "set S = set S' \<Longrightarrow> depthIn S p = depthIn S' p"
proof (induction S p rule: depthIn.induct)
  case (1 S p)
  show ?case
  proof (cases "parentPath p")
    case None
    then show ?thesis by (simp add: depthIn.simps)
  next
    case (Some q)
    show ?thesis
    proof (cases "q \<in> set S")
      case True
      with 1 Some show ?thesis
        by (simp add: depthIn.simps [of S p] depthIn.simps [of S' p])
    next
      case False
      with 1 Some show ?thesis
        by (simp add: depthIn.simps [of S p] depthIn.simps [of S' p])
    qed
  qed
qed

lemma depthIn_child: "parentPath p = Some q \<Longrightarrow> q \<in> set S \<Longrightarrow> depthIn S p = Suc (depthIn S q)"
  by (simp add: depthIn.simps [of S p])

lemma sorted_parents_first:
  "sorted (map (depthIn S) ps) \<Longrightarrow> set ps \<subseteq> set S \<Longrightarrow> parents_first ps"
proof (induction ps)
  case Nil
  then show ?case by simp
next
  case (Cons p ps)
  have "parentPath p \<noteq> Some q" if "q \<in> set ps" for q
  proof
    assume pq: "parentPath p = Some q"
    have "q \<in> set S" using that Cons.prems(2) by auto
    then have "depthIn S p = Suc (depthIn S q)" using pq by (rule depthIn_child [rotated])
    moreover have "depthIn S p \<le> depthIn S q" using Cons.prems(1) that by auto
    ultimately show False by simp
  qed
  with Cons show ?case by simp
qed

lemma parentPath_irrefl: "parentPath p \<noteq> Some p"
  using parentPath_smaller [of p p] by auto

section \<open>Invariants of the create phase\<close>

lemma createFolderTask_events [simp]:
  "project folder_ev (createFolderTask e n f r) =
     project folder_ev r
       @ [(path f, lookup_parent r f, drive_createFolder e (name f) (lookup_parent r f) (path f))]"
  "project upload_ev (createFolderTask e n f r) = project upload_ev r"
  "project created (createFolderTask e n f r) =
     project created r
       @ (case drive_createFolder e (name f) (lookup_parent r f) (path f) of
            None \<Rightarrow> [] | Some i \<Rightarrow> [(i, path f)])"
  "project create_step (createFolderTask e n f r) = project create_step r @ [0]"
  by (simp_all add: createFolderTask_project split: option.splits)

lemma uploadTask_events [simp]:
  "project folder_ev (uploadTask e n f r) = project folder_ev r"
  "project upload_ev (uploadTask e n f r) =
     project upload_ev r
       @ [(path f, lookup_parent r f,
           drive_uploadFile e (Binary (path f)) (name f) (lookup_parent r f) (path f))]"
  "project created (uploadTask e n f r) =
     project created r
       @ (case drive_uploadFile e (Binary (path f)) (name f) (lookup_parent r f) (path f) of
            None \<Rightarrow> [] | Some i \<Rightarrow> [(i, path f)])"
  "project create_step (uploadTask e n f r) = project create_step r @ [1]"
  by (simp_all add: uploadTask_project split: option.splits)

lemma createFolderTask_state:
  "pathsToIds (createFolderTask e n f r) =
     (case drive_createFolder e (name f) (lookup_parent r f) (path f) of
        None \<Rightarrow> pathsToIds r | Some i \<Rightarrow> obj_set (path f) i (pathsToIds r))"
  "index_of (createFolderTask e n f r) =
     (case drive_createFolder e (name f) (lookup_parent r f) (path f) of
        None \<Rightarrow> index_of r | Some i \<Rightarrow> obj_set i (path f) (index_of r))"
  by (simp_all add: createFolderTask_def Let_def split: option.splits)

lemma uploadTask_state:
  "index_of (uploadTask e n f r) =
     (case drive_uploadFile e (Binary (path f)) (name f) (lookup_parent r f) (path f) of
        None \<Rightarrow> index_of r | Some i \<Rightarrow> obj_set i (path f) (index_of r))"
  by (simp_all add: uploadTask_def Let_def split: option.splits)

lemma folder_call_fst: "project folder_call r = map fst (project folder_ev r)"
proof -
  have "List.map_filter folder_call tr = map fst (List.map_filter folder_ev tr)" for tr
  proof (induction tr)
    case Nil
    show ?case by (simp add: List.map_filter_simps)
  next
    case (Cons ev tr)
    then show ?case by (cases ev) (simp_all add: List.map_filter_simps)
  qed
  then show ?thesis by (simp add: project_def)
qed

lemma upload_call_fst: "project upload_call r = map fst (project upload_ev r)"
proof -
  have "List.map_filter upload_call tr = map fst (List.map_filter upload_ev tr)" for tr
  proof (induction tr)
    case Nil
    show ?case by (simp add: List.map_filter_simps)
  next
    case (Cons ev tr)
    then show ?case by (cases ev) (simp_all add: List.map_filter_simps)
  qed
  then show ?thesis by (simp add: project_def)
qed

text \<open>One container task keeps the two invariants.\<close>

lemma createFolderTask_invariants:
  assumes ls: "lookup_sound r" and pr: "parents_resolved r"
    and fresh: "path f \<notin> set (project folder_call r)"
    and order: "\<forall>gp\<in>set (project folder_call r). parentPath gp \<noteq> Some (path f)"
    and nouploads: "project upload_ev r = []"
    and par: "parent f = parentPath (path f)"
  shows "lookup_sound (createFolderTask e n f r)" and "parents_resolved (createFolderTask e n f r)"
proof -
  let ?par = "lookup_parent r f"
  let ?res = "drive_createFolder e (name f) ?par (path f)"
  have old_path: "fp \<noteq> path f" if "(fp, p, x) \<in> set (project folder_ev r)" for fp p x
    using that fresh by (force simp: folder_call_fst)
  have lookup_other: "obj_get (pathsToIds (createFolderTask e n f r)) fp = obj_get (pathsToIds r) fp"
    if "fp \<noteq> path f" for fp
    using that by (simp add: createFolderTask_state obj_get_obj_set_other split: option.splits)
  have lookup_new: "obj_get (pathsToIds (createFolderTask e n f r)) (path f) = Str i"
    if "?res = Some i" "assignable (pathsToIds r) (path f)" for i
    using that by (simp add: createFolderTask_state obj_get_obj_set_same)
  have same: "assignable (pathsToIds (createFolderTask e n f r)) fp = assignable (pathsToIds r) fp"
    for fp
    by (simp add: createFolderTask_state split: option.splits)
  show "lookup_sound (createFolderTask e n f r)"
    unfolding lookup_sound_def
  proof (intro allI impI)
    fix fp p i
    assume "(fp, p, Some i) \<in> set (project folder_ev (createFolderTask e n f r))"
      and "assignable (pathsToIds (createFolderTask e n f r)) fp"
    then have nproto: "assignable (pathsToIds r) fp"
      and "(fp, p, Some i) \<in> set (project folder_ev (createFolderTask e n f r))"
      by (simp_all only: same)
    then consider (old) "(fp, p, Some i) \<in> set (project folder_ev r)"
      | (new) "fp = path f" "?res = Some i"
      by auto
    then show "obj_get (pathsToIds (createFolderTask e n f r)) fp = Str i"
    proof cases
      case old
      from ls old nproto have "obj_get (pathsToIds r) fp = Str i"
        unfolding lookup_sound_def by blast
      with old_path [OF old] show ?thesis by (simp add: lookup_other)
    next
      case new
      with nproto show ?thesis by (simp add: lookup_new)
    qed
  qed
  show "parents_resolved (createFolderTask e n f r)"
    unfolding parents_resolved_def
  proof (intro allI impI)
    fix fp p i gp par' res
    assume parentEv: "(fp, p, Some i) \<in> set (project folder_ev (createFolderTask e n f r))"
      and "assignable (pathsToIds (createFolderTask e n f r)) fp"
      and childEv: "(gp, par', res) \<in> set (project folder_ev (createFolderTask e n f r))
                       \<union> set (project upload_ev (createFolderTask e n f r))"
      and rel: "parentPath gp = Some fp"
    then have nproto: "assignable (pathsToIds r) fp"
      by (simp only: same)
    from childEv nouploads
    consider (old) "(gp, par', res) \<in> set (project folder_ev r)"
      | (new) "gp = path f" "par' = ?par"
      by auto
    then show "par' = Str i"
    proof cases
      case old
      from parentEv consider (pold) "(fp, p, Some i) \<in> set (project folder_ev r)"
        | (pnew) "fp = path f"
        by auto
      then show ?thesis
      proof cases
        case pold
        with pr old rel nproto show ?thesis unfolding parents_resolved_def by blast
      next
        case pnew
        from old have "gp \<in> set (project folder_call r)" by (force simp: folder_call_fst)
        with order rel pnew show ?thesis by blast
      qed
    next
      case new
      from parentEv consider (pold) "(fp, p, Some i) \<in> set (project folder_ev r)"
        | (pnew) "fp = path f"
        by auto
      then show ?thesis
      proof cases
        case pold
        then have "obj_get (pathsToIds r) fp = Str i"
          using ls nproto unfolding lookup_sound_def by blast
        with new rel par show ?thesis by (simp add: lookup_parent_def)
      next
        case pnew
        with new rel show ?thesis using parentPath_irrefl by blast
      qed
    qed
  qed
qed

text \<open>One leaf task keeps them too.\<close>

lemma uploadTask_invariants:
  assumes ls: "lookup_sound r" and pr: "parents_resolved r"
    and par: "parent f = parentPath (path f)"
  shows "lookup_sound (uploadTask e n f r)" and "parents_resolved (uploadTask e n f r)"
proof -
  show "lookup_sound (uploadTask e n f r)"
    using ls by (simp add: lookup_sound_def)
  show "parents_resolved (uploadTask e n f r)"
    unfolding parents_resolved_def
  proof (intro allI impI)
    fix fp p i gp par' res
    assume parentEv: "(fp, p, Some i) \<in> set (project folder_ev (uploadTask e n f r))"
      and nproto: "assignable (pathsToIds (uploadTask e n f r)) fp"
      and childEv: "(gp, par', res) \<in> set (project folder_ev (uploadTask e n f r))
                       \<union> set (project upload_ev (uploadTask e n f r))"
      and rel: "parentPath gp = Some fp"
    from parentEv have pold: "(fp, p, Some i) \<in> set (project folder_ev r)" by simp
    from nproto have nproto: "assignable (pathsToIds r) fp" by simp
    from childEv
    consider (old) "(gp, par', res) \<in> set (project folder_ev r) \<union> set (project upload_ev r)"
      | (new) "gp = path f" "par' = lookup_parent r f"
      by auto
    then show "par' = Str i"
    proof cases
      case old
      with pr pold rel nproto show ?thesis unfolding parents_resolved_def by blast
    next
      case new
      from pold have "obj_get (pathsToIds r) fp = Str i"
        using ls nproto unfolding lookup_sound_def by blast
      with new rel par show ?thesis by (simp add: lookup_parent_def)
    qed
  qed
qed

text \<open>A task that records what it created keeps the Index sound.\<close>

lemma index_sound_step:
  assumes "index_sound r"
    and "project created r' = project created r @ (case res of None \<Rightarrow> [] | Some i \<Rightarrow> [(i, p)])"
    and "index_of r' = (case res of None \<Rightarrow> index_of r | Some i \<Rightarrow> obj_set i p (index_of r))"
  shows "index_sound r'"
proof (cases res)
  case None
  have a: "project created r' = project created r" "index_of r' = index_of r"
    using assms(2,3) None by simp_all
  show ?thesis
    using assms(1) by (simp only: index_sound_def a)
next
  case (Some i)
  have c: "project created r' = project created r @ [(i, p)]"
    and x: "index_of r' = obj_set i p (index_of r)"
    using assms(2,3) Some by simp_all
  show ?thesis
    unfolding index_sound_def
  proof (intro allI impI)
    fix j q
    assume mem: "(j, q) \<in> set (project created r')"
      and "assignable (index_of r') j"
      and uniq: "\<forall>q'. (j, q') \<in> set (project created r') \<longrightarrow> q' = q"
    then have nproto: "assignable (index_of r) j"
      by (simp add: x)
    show "obj_get (index_of r') j = Str q"
    proof (cases "j = i")
      case True
      have "(i, p) \<in> set (project created r')" by (simp add: c)
      with uniq True have "q = p" by blast
      with True nproto show ?thesis by (simp add: x obj_get_obj_set_same)
    next
      case False
      from mem have "(j, q) \<in> set (project created r) \<or> j = i" by (auto simp: c)
      with False have m: "(j, q) \<in> set (project created r)" by blast
      have u: "\<forall>q'. (j, q') \<in> set (project created r) \<longrightarrow> q' = q"
      proof (intro allI impI)
        fix q'
        assume "(j, q') \<in> set (project created r)"
        then have "(j, q') \<in> set (project created r')" by (simp add: c)
        with uniq show "q' = q" by blast
      qed
      from assms(1) m u nproto have "obj_get (index_of r) j = Str q"
        unfolding index_sound_def by blast
      with False show ?thesis by (simp add: x obj_get_obj_set_other)
    qed
  qed
qed

lemma task_index_sound:
  "index_sound r \<Longrightarrow> index_sound (createFolderTask e n f r)"
  "index_sound r \<Longrightarrow> index_sound (uploadTask e n f r)"
proof -
  assume a: "index_sound r"
  show "index_sound (createFolderTask e n f r)"
    by (rule index_sound_step [OF a,
          where res = "drive_createFolder e (name f) (lookup_parent r f) (path f)" and p = "path f"])
       (simp_all add: createFolderTask_state)
  show "index_sound (uploadTask e n f r)"
    by (rule index_sound_step [OF a,
          where res = "drive_uploadFile e (Binary (path f)) (name f) (lookup_parent r f) (path f)"
            and p = "path f"])
       (simp_all add: uploadTask_state)
qed

lemma folder_tasks_paths:
  "concat (foldersToBatches path (map (\<lambda>p. mk_node p TFolder) ps))
     = map (\<lambda>p. mk_node p TFolder) (concat (foldersToBatches (\<lambda>p. p) ps))"
  by (simp add: foldersToBatches_def map_concat filter_map comp_def)

lemma create_phase_paths:
  "create_phase e creates r =
     (if creates = [] then r
      else batchAsyncs
             (map (\<lambda>p. uploadTask e (length creates) (mk_node p TFile))
                (local_paths e TFile creates))
             (batchAsyncs
                (map (\<lambda>p. createFolderTask e (length creates) (mk_node p TFolder))
                   (folder_order e creates))
                (r\<lparr>completed := 0\<rparr>)))"
  by (simp add: create_phase_seq folder_tasks_paths folder_order_def comp_def)

text \<open>The container tasks, run over a list in which no path comes before its parent.\<close>

lemma folder_tasks_invariants:
  assumes "lookup_sound r" and "parents_resolved r" and "index_sound r"
    and "project upload_ev r = []"
    and "distinct ps" and "parents_first ps"
    and "set ps \<inter> set (project folder_call r) = {}"
    and "\<forall>gp\<in>set (project folder_call r). \<forall>p\<in>set ps. parentPath gp \<noteq> Some p"
  shows "lookup_sound (batchAsyncs (map (\<lambda>p. createFolderTask e n (mk_node p TFolder)) ps) r)
       \<and> parents_resolved (batchAsyncs (map (\<lambda>p. createFolderTask e n (mk_node p TFolder)) ps) r)
       \<and> index_sound (batchAsyncs (map (\<lambda>p. createFolderTask e n (mk_node p TFolder)) ps) r)
       \<and> project upload_ev (batchAsyncs (map (\<lambda>p. createFolderTask e n (mk_node p TFolder)) ps) r) = []"
  using assms
proof (induction ps arbitrary: r)
  case Nil
  then show ?case by simp
next
  case (Cons p ps)
  let ?r1 = "createFolderTask e n (mk_node p TFolder) r"
  have fresh: "path (mk_node p TFolder) \<notin> set (project folder_call r)"
    using Cons.prems(7) by auto
  have order: "\<forall>gp\<in>set (project folder_call r). parentPath gp \<noteq> Some (path (mk_node p TFolder))"
    using Cons.prems(8) by auto
  have 1: "lookup_sound ?r1" "parents_resolved ?r1"
    using createFolderTask_invariants [OF Cons.prems(1,2) fresh order Cons.prems(4)] by simp_all
  have 2: "index_sound ?r1" using Cons.prems(3) by (rule task_index_sound)
  have 3: "project upload_ev ?r1 = []" using Cons.prems(4) by simp
  have 4: "distinct ps" "parents_first ps" using Cons.prems(5,6) by simp_all
  have 5: "set ps \<inter> set (project folder_call ?r1) = {}"
    using Cons.prems(5,7) by auto
  have 6: "\<forall>gp\<in>set (project folder_call ?r1). \<forall>q\<in>set ps. parentPath gp \<noteq> Some q"
    using Cons.prems(6,8) by auto
  show ?case
    using Cons.IH [OF 1 2 3 4 5 6] by simp
qed

lemma upload_tasks_invariants:
  assumes "lookup_sound r" and "parents_resolved r" and "index_sound r"
  shows "lookup_sound (batchAsyncs (map (\<lambda>p. uploadTask e n (mk_node p TFile)) ps) r)
       \<and> parents_resolved (batchAsyncs (map (\<lambda>p. uploadTask e n (mk_node p TFile)) ps) r)
       \<and> index_sound (batchAsyncs (map (\<lambda>p. uploadTask e n (mk_node p TFile)) ps) r)"
  using assms
proof (induction ps arbitrary: r)
  case Nil
  then show ?case by simp
next
  case (Cons p ps)
  let ?r1 = "uploadTask e n (mk_node p TFile) r"
  have 1: "lookup_sound ?r1" "parents_resolved ?r1"
    using uploadTask_invariants [OF Cons.prems(1,2)] by simp_all
  have 2: "index_sound ?r1" using Cons.prems(3) by (rule task_index_sound)
  show ?case
    using Cons.IH [OF 1 2] by simp
qed

lemma invariants_completed [simp]:
  "lookup_sound (r\<lparr>completed := n\<rparr>) = lookup_sound r"
  "parents_resolved (r\<lparr>completed := n\<rparr>) = parents_resolved r"
  by (simp_all add: lookup_sound_def parents_resolved_def)

lemma index_sound_completed: "index_sound r \<Longrightarrow> index_sound (r\<lparr>completed := n\<rparr>)"
  by (erule index_sound_step [where res = None]) simp_all

lemma distinct_local_paths: "distinct (map fst ops) \<Longrightarrow> distinct (local_paths e k ops)"
  by (simp add: local_paths_def)

lemma folder_order_facts:
  assumes "distinct (map fst creates)"
  shows "distinct (folder_order e creates)"
    and "parents_first (folder_order e creates)"
    and "set (folder_order e creates) = set (local_paths e TFolder creates)"
    and "sorted (map (depthIn (folder_order e creates)) (folder_order e creates))"
proof -
  let ?ps = "local_paths e TFolder creates"
  show "distinct (folder_order e creates)"
    unfolding folder_order_def using assms by (intro distinct_folder_order distinct_local_paths)
  show s: "set (folder_order e creates) = set ?ps"
    unfolding folder_order_def by (rule set_folder_order)
  have "sorted (map (depthIn ?ps) (folder_order e creates))"
    unfolding folder_order_def by (rule sorted_folder_order)
  moreover have "depthIn ?ps = depthIn (folder_order e creates)"
    using depthIn_cong [OF s [symmetric]] by auto
  ultimately show d: "sorted (map (depthIn (folder_order e creates)) (folder_order e creates))"
    by simp
  show "parents_first (folder_order e creates)"
    using d by (rule sorted_parents_first) simp
qed

text \<open>The create phase does not change at which keys an assignment to \<open>pathsToIds\<close> takes effect.\<close>

lemma create_phase_assignable:
  "assignable (pathsToIds (create_phase e creates r)) k = assignable (pathsToIds r) k"
proof -
  have a: "assignable (pathsToIds (batchAsyncs (map (\<lambda>p. createFolderTask e n (mk_node p TFolder)) ps) r')) k
             = assignable (pathsToIds r') k" for n ps r'
    by (rule batchAsyncs_keeps [where f = "\<lambda>r. assignable (pathsToIds r) k"])
       (auto simp: createFolderTask_state split: option.splits)
  have b: "assignable (pathsToIds (batchAsyncs (map (\<lambda>p. uploadTask e n (mk_node p TFile)) ps) r')) k
             = assignable (pathsToIds r') k" for n ps r'
    by (rule batchAsyncs_keeps [where f = "\<lambda>r. assignable (pathsToIds r) k"]) auto
  show ?thesis by (simp add: create_phase_paths a b)
qed

text \<open>The create phase, started in a state whose trace has no create call yet.\<close>

lemma create_phase_invariants:
  assumes "project folder_ev r = []" and "project upload_ev r = []" and "project created r = []"
    and "distinct (map fst creates)"
  shows "lookup_sound (create_phase e creates r)"
    and "parents_resolved (create_phase e creates r)"
    and "index_sound (create_phase e creates r)"
proof -
  have init: "lookup_sound r" "parents_resolved r" "index_sound r"
    using assms(1-3) by (simp_all add: lookup_sound_def parents_resolved_def index_sound_def)
  let ?r0 = "r\<lparr>completed := 0\<rparr>"
  let ?r1 = "batchAsyncs (map (\<lambda>p. createFolderTask e (length creates) (mk_node p TFolder))
               (folder_order e creates)) ?r0"
  have nocalls: "project folder_call ?r0 = []"
    using assms(1) by (simp add: folder_call_fst)
  have f: "lookup_sound ?r1 \<and> parents_resolved ?r1 \<and> index_sound ?r1 \<and> project upload_ev ?r1 = []"
    using init index_sound_completed [OF init(3)] assms(2) folder_order_facts(1,2) [OF assms(4)] nocalls
    by (intro folder_tasks_invariants) simp_all
  have u: "lookup_sound (batchAsyncs (map (\<lambda>p. uploadTask e n (mk_node p TFile)) ps) ?r1)
         \<and> parents_resolved (batchAsyncs (map (\<lambda>p. uploadTask e n (mk_node p TFile)) ps) ?r1)
         \<and> index_sound (batchAsyncs (map (\<lambda>p. uploadTask e n (mk_node p TFile)) ps) ?r1)" for n ps
    using f by (intro upload_tasks_invariants) simp_all
  show "lookup_sound (create_phase e creates r)"
    using init u by (simp add: create_phase_paths)
  show "parents_resolved (create_phase e creates r)"
    using init u by (simp add: create_phase_paths)
  show "index_sound (create_phase e creates r)"
    using init u by (simp add: create_phase_paths)
qed

section \<open>A completed run and its create phase\<close>

text \<open>Steps that make no create call leave the views of the create calls alone.\<close>

lemma modify_phase_silent:
  assumes "\<And>i b res. g (UpdateFile i b res) = None"
    and "\<And>m. g (Notice m) = None" and "\<And>m. g (SetMessage m) = None"
  shows "project g (modify_phase e ms r) = project g r"
proof -
  have "project g (batchAsyncs (map (\<lambda>p. updateTask e m n (mk_node p TFile)) ps) r')
          = project g r' @ concat (map (\<lambda>p. []) ps)" for m n ps r'
    by (rule batchAsyncs_project) (simp add: updateTask_project assms split: option.splits)
  then show ?thesis by (simp add: modify_phase_alt)
qed

lemma finish_silent:
  assumes "\<And>i b res. g (UpdateFile i b res) = None"
    and "\<And>m. g (Notice m) = None" and "g EndSync = None"
  shows "project g (finish e r) = project g r"
  by (simp add: project_trace finish_simps map_filter_append List.map_filter_simps assms)

lemma before_create_silent:
  assumes "delete_phase e ds (searched e t) = (True, r2)"
    and "g StartSync = None" and "\<And>b. g (PullCall b) = None"
    and "\<And>q res. g (SearchFiles q res) = None" and "\<And>ids ok. g (BatchDelete ids ok) = None"
    and "\<And>m. g (SetMessage m) = None"
  shows "project g (emit (SetMessage m) r2) = []"
  using delete_phase_True(2) [OF assms(1)]
  by (simp add: project_trace map_filter_append List.map_filter_simps assms)

lemma create_phase_steps:
  "\<exists>k0 k1. project create_step (create_phase e creates r) = project create_step r @ k0 @ k1
           \<and> (\<forall>k\<in>set k0. k = 0) \<and> (\<forall>k\<in>set k1. k = 1)"
proof -
  have a: "project create_step (batchAsyncs (map (\<lambda>p. createFolderTask e n (mk_node p TFolder)) ps) r')
             = project create_step r' @ concat (map (\<lambda>p. [0]) ps)" for n ps r'
    by (rule batchAsyncs_project) simp
  have b: "project create_step (batchAsyncs (map (\<lambda>p. uploadTask e n (mk_node p TFile)) ps) r')
             = project create_step r' @ concat (map (\<lambda>p. [1]) ps)" for n ps r'
    by (rule batchAsyncs_project) simp
  show ?thesis
  proof (cases "creates = []")
    case True
    then show ?thesis by (simp add: create_phase_paths)
  next
    case False
    then have "project create_step (create_phase e creates r)
                 = project create_step r @ concat (map (\<lambda>p. [0]) (folder_order e creates))
                     @ concat (map (\<lambda>p. [1]) (local_paths e TFile creates))"
      by (simp add: create_phase_paths a b)
    moreover have "\<forall>k\<in>set (concat (map (\<lambda>p. [0::nat]) (folder_order e creates))). k = 0"
      "\<forall>k\<in>set (concat (map (\<lambda>p. [1::nat]) (local_paths e TFile creates))). k = 1"
      by auto
    ultimately show ?thesis by blast
  qed
qed

lemma distinct_ops_of_kind:
  "distinct (map fst (journal_of r)) \<Longrightarrow> distinct (map fst (ops_of_kind k r))"
  by (simp add: ops_of_kind_def distinct_map_filter)

text \<open>A completed run, seen through its create phase.\<close>

lemma completed_create_view:
  assumes "push e t = (Completed, r)"
  obtains r3 where
    "project folder_ev r3 = []" "project upload_ev r3 = []" "project created r3 = []"
    "project folder_call r3 = []" "project upload_call r3 = []" "project create_step r3 = []"
    "project update_call r3 = []"
    "project folder_ev r = project folder_ev (create_phase e (ops_of_kind Create (prepared e t)) r3)"
    "project upload_ev r = project upload_ev (create_phase e (ops_of_kind Create (prepared e t)) r3)"
    "project created r = project created (create_phase e (ops_of_kind Create (prepared e t)) r3)"
    "project folder_call r = project folder_call (create_phase e (ops_of_kind Create (prepared e t)) r3)"
    "project upload_call r = project upload_call (create_phase e (ops_of_kind Create (prepared e t)) r3)"
    "project create_step r = project create_step (create_phase e (ops_of_kind Create (prepared e t)) r3)"
    "project update_call r = local_paths e TFile (ops_of_kind Modify (prepared e t))"
    "index_of r = index_of (create_phase e (ops_of_kind Create (prepared e t)) r3)"
    "pathsToIds r = pathsToIds (create_phase e (ops_of_kind Create (prepared e t)) r3)"
    "pathsToIds r3 = pathsToIds (prepared e t)"
proof (cases rule: push_cases [of t e])
  case Blocked
  with assms show ?thesis by simp
next
  case FetchFailed
  with assms show ?thesis by simp
next
  case (DeleteFailed r2)
  with assms show ?thesis by simp
next
  case (Completed r2)
  let ?r3 = "emit (SetMessage (Literal ''Syncing (33%)'')) r2"
  let ?r4 = "create_phase e (ops_of_kind Create (prepared e t)) ?r3"
  have r: "r = finish e (modify_phase e (ops_of_kind Modify (prepared e t)) ?r4)"
    using assms Completed(4) by simp
  note d = Completed(3)
  show ?thesis
  proof (rule that [of ?r3])
    show "project folder_ev ?r3 = []" by (rule before_create_silent [OF d]) simp_all
    show "project upload_ev ?r3 = []" by (rule before_create_silent [OF d]) simp_all
    show "project created ?r3 = []" by (rule before_create_silent [OF d]) simp_all
    show "project folder_call ?r3 = []" by (rule before_create_silent [OF d]) simp_all
    show "project upload_call ?r3 = []" by (rule before_create_silent [OF d]) simp_all
    show "project create_step ?r3 = []" by (rule before_create_silent [OF d]) simp_all
    show u0: "project update_call ?r3 = []" by (rule before_create_silent [OF d]) simp_all
    show "project folder_ev r = project folder_ev ?r4"
      unfolding r by (simp add: finish_silent modify_phase_silent)
    show "project upload_ev r = project upload_ev ?r4"
      unfolding r by (simp add: finish_silent modify_phase_silent)
    show "project created r = project created ?r4"
      unfolding r by (simp add: finish_silent modify_phase_silent)
    show "project folder_call r = project folder_call ?r4"
      unfolding r by (simp add: finish_silent modify_phase_silent)
    show "project upload_call r = project upload_call ?r4"
      unfolding r by (simp add: finish_silent modify_phase_silent)
    show "project create_step r = project create_step ?r4"
      unfolding r by (simp add: finish_silent modify_phase_silent)
    have "project update_call r = project update_call (modify_phase e (ops_of_kind Modify (prepared e t)) ?r4)"
      unfolding r
      by (simp add: project_trace finish_simps map_filter_append List.map_filter_simps)
    then show "project update_call r = local_paths e TFile (ops_of_kind Modify (prepared e t))"
      using u0 by (simp add: modify_phase_calls create_phase_calls)
    show "index_of r = index_of ?r4"
      unfolding r by (simp add: finish_simps)
    show "pathsToIds r = pathsToIds ?r4"
      unfolding r by (simp add: finish_simps modify_phase_pathsToIds)
    show "pathsToIds ?r3 = pathsToIds (prepared e t)"
      using delete_phase_True(3) [OF d] by simp
  qed
qed

section \<open>Error notices and failed calls\<close>

lemma task_notices_match [simp]:
  "notices_match (createFolderTask e n f r) = notices_match r"
  "notices_match (uploadTask e n f r) = notices_match r"
  "notices_match (updateTask e m n f r) = notices_match r"
  by (simp_all add: notices_match_def createFolderTask_project uploadTask_project
        updateTask_project split: option.splits)

lemma create_phase_notices_match: "notices_match (create_phase e creates r) = notices_match r"
proof -
  have a: "notices_match (batchAsyncs (map (\<lambda>p. createFolderTask e n (mk_node p TFolder)) ps) r')
             = notices_match r'" for n ps r'
    by (rule batchAsyncs_keeps) auto
  have b: "notices_match (batchAsyncs (map (\<lambda>p. uploadTask e n (mk_node p TFile)) ps) r')
             = notices_match r'" for n ps r'
    by (rule batchAsyncs_keeps) auto
  show ?thesis
    by (simp add: create_phase_paths a b) (simp add: notices_match_def)
qed

lemma modify_phase_notices_match: "notices_match (modify_phase e ms r) = notices_match r"
proof -
  have a: "notices_match (batchAsyncs (map (\<lambda>p. updateTask e m n (mk_node p TFile)) ps) r')
             = notices_match r'" for m n ps r'
    by (rule batchAsyncs_keeps) auto
  show ?thesis
    by (simp add: modify_phase_alt a) (simp add: notices_match_def)
qed

lemma push_notices_match: "notices_match (snd (push e t))"
proof (cases rule: push_cases [of t e])
  case Blocked
  then show ?thesis
    by (simp add: notices_match_def project_trace init_run_def List.map_filter_simps)
next
  case FetchFailed
  then show ?thesis
    by (simp add: notices_match_def project_trace map_filter_append List.map_filter_simps)
next
  case (DeleteFailed r2)
  from delete_phase_False(3) [OF DeleteFailed(3)] DeleteFailed(2,4)
  show ?thesis
    by (auto simp: notices_match_def project_trace map_filter_append List.map_filter_simps)
next
  case (Completed r2)
  let ?r3 = "emit (SetMessage (Literal ''Syncing (33%)'')) r2"
  have "notices_match ?r3"
    using delete_phase_True(2) [OF Completed(3)] Completed(2)
    by (auto simp: notices_match_def project_trace map_filter_append List.map_filter_simps)
  then have "notices_match (modify_phase e (ops_of_kind Modify (prepared e t))
               (create_phase e (ops_of_kind Create (prepared e t)) ?r3))"
    by (simp add: modify_phase_notices_match create_phase_notices_match)
  then show ?thesis
    using Completed(4)
    by (simp add: notices_match_def project_trace finish_simps map_filter_append
          List.map_filter_simps)
qed

lemma buckets_mset:
  "mset (concat (map (\<lambda>d. filter (\<lambda>x. D x = d) ps) [0 ..< n])) = mset (filter (\<lambda>x. D x < n) ps)"
proof (induction n)
  case 0
  then show ?case by simp
next
  case (Suc n)
  have "mset (filter (\<lambda>x. D x < n) ps) + mset (filter (\<lambda>x. D x = n) ps)
          = mset (filter (\<lambda>x. D x < Suc n) ps)"
    by (induction ps) (auto simp: less_Suc_eq)
  with Suc show ?case by simp
qed

lemma mset_folder_order: "mset (folder_order e creates) = mset (local_paths e TFolder creates)"
proof (cases "local_paths e TFolder creates = []")
  case True
  then show ?thesis by (simp add: folder_order_def foldersToBatches_def)
next
  case False
  let ?ps = "local_paths e TFolder creates"
  have "depthIn ?ps x < Suc (fold max (map (depthIn ?ps) ?ps) 0)" if "x \<in> set ?ps" for x
    using fold_max_ge [of "depthIn ?ps x" "map (depthIn ?ps) ?ps" 0] that by (simp add: less_Suc_eq_le)
  then have "filter (\<lambda>x. depthIn ?ps x < Suc (fold max (map (depthIn ?ps) ?ps) 0)) ?ps = ?ps"
    by (simp add: filter_id_conv)
  then show ?thesis
    unfolding folder_order_def folder_order_eq buckets_mset using False by simp
qed

text \<open>The calls of an aborted or blocked run.\<close>

lemma no_calls_unless_completed:
  assumes "fst (push e t) \<noteq> Completed"
  shows "project folder_call (snd (push e t)) = []"
    and "project upload_call (snd (push e t)) = []"
    and "project update_call (snd (push e t)) = []"
proof -
  have "project folder_call (snd (push e t)) = [] \<and> project upload_call (snd (push e t)) = []
      \<and> project update_call (snd (push e t)) = []"
  proof (cases rule: push_cases [of t e])
    case Blocked
    then show ?thesis by (simp add: project_trace init_run_def List.map_filter_simps)
  next
    case FetchFailed
    then show ?thesis by (simp add: project_trace map_filter_append List.map_filter_simps)
  next
    case (DeleteFailed r2)
    from delete_phase_False(3) [OF DeleteFailed(3)] DeleteFailed(4)
    show ?thesis by (simp add: project_trace map_filter_append List.map_filter_simps)
  next
    case (Completed r2)
    with assms show ?thesis by simp
  qed
  then show "project folder_call (snd (push e t)) = []"
    and "project upload_call (snd (push e t)) = []"
    and "project update_call (snd (push e t)) = []"
    by simp_all
qed

lemma completed_calls:
  assumes "push e t = (Completed, r)"
  shows "project folder_call r = folder_order e (ops_of_kind Create (prepared e t))"
    and "project upload_call r = local_paths e TFile (ops_of_kind Create (prepared e t))"
    and "project update_call r = local_paths e TFile (ops_of_kind Modify (prepared e t))"
proof -
  let ?cs = "ops_of_kind Create (prepared e t)"
  obtain r3 where v:
    "project folder_call r3 = []" "project upload_call r3 = []"
    "project folder_call r = project folder_call (create_phase e ?cs r3)"
    "project upload_call r = project upload_call (create_phase e ?cs r3)"
    "project update_call r = local_paths e TFile (ops_of_kind Modify (prepared e t))"
    using completed_create_view [OF assms] by metis
  show "project folder_call r = folder_order e ?cs"
    using v(1) by (simp add: v(3) create_phase_calls)
  show "project upload_call r = local_paths e TFile ?cs"
    using v(2) by (simp add: v(4) create_phase_calls)
  show "project update_call r = local_paths e TFile (ops_of_kind Modify (prepared e t))"
    by (rule v(5))
qed

lemma local_paths_present: "p \<in> set (local_paths e k ops) \<Longrightarrow> vault_node e p = Some k"
  by (simp add: local_paths_def)

section \<open>Paths that do not resolve\<close>

lemma fold_update_keys:
  "fst ` set (fold (\<lambda>(k, v). AList.update k v) es acc) = fst ` set es \<union> fst ` set acc"
proof (induction es arbitrary: acc)
  case Nil
  then show ?case by simp
next
  case (Cons x es)
  obtain k v where x: "x = (k, v)" by (cases x)
  have "fst ` set (fold (\<lambda>(k, v). AList.update k v) (x # es) acc)
          = fst ` set es \<union> fst ` set (AList.update k v acc)"
    using Cons.IH [of "AList.update k v acc"] by (simp add: x)
  also have "\<dots> = fst ` set es \<union> ({k} \<union> fst ` set acc)"
    by (simp only: dom_update)
  also have "\<dots> = fst ` set (x # es) \<union> fst ` set acc"
    by (simp add: x)
  finally show ?case .
qed

lemma fromEntries_keys: "fst ` set (fromEntries es) = fst ` set es"
  by (simp add: fromEntries_def fold_update_keys)

text \<open>What a lookup derived from the Index gives for a path that the Index does not hold.\<close>

lemma unresolved_lookup:
  assumes "p \<notin> snd ` set idx"
  shows "obj_get (fromEntries (map prod.swap idx)) p
           = (if p \<in> set object_prototype then Inherited p else Undefined)"
proof -
  have "fst ` set (fromEntries (map prod.swap idx)) = snd ` set idx"
    unfolding fromEntries_keys by force
  with assms have "map_of (fromEntries (map prod.swap idx)) p = None"
    by (simp add: map_of_eq_None_iff)
  then show ?thesis by (simp add: obj_get_def)
qed

lemma updateTask_update_ev [simp]:
  "project update_ev (updateTask e m n f r) =
     project update_ev r
       @ [(path f, obj_get m (path f), drive_updateFile e (obj_get m (path f)) (Binary (path f)))]"
  by (simp add: updateTask_project split: option.splits)

lemma modify_phase_update_ev:
  "project update_ev (modify_phase e ms r) =
     project update_ev r
       @ map (\<lambda>p. (p, obj_get (fromEntries (map prod.swap (index_of r))) p,
                    drive_updateFile e (obj_get (fromEntries (map prod.swap (index_of r))) p) (Binary p)))
           (local_paths e TFile ms)"
proof -
  have "project update_ev (batchAsyncs (map (\<lambda>p. updateTask e m n (mk_node p TFile)) ps) r')
          = project update_ev r'
              @ concat (map (\<lambda>p. [(p, obj_get m p, drive_updateFile e (obj_get m p) (Binary p))]) ps)"
    for m n ps r'
    by (rule batchAsyncs_project) simp
  then show ?thesis
    by (simp add: modify_phase_alt local_paths_def concat_map_singleton)
qed

text \<open>The create phase makes no call but its own.\<close>

lemma create_phase_silent:
  assumes "\<And>nm par p res. g (CreateFolder nm par p res) = None"
    and "\<And>b nm par p res. g (UploadFile b nm par p res) = None"
    and "\<And>m. g (Notice m) = None" and "\<And>m. g (SetMessage m) = None"
  shows "project g (create_phase e cs r) = project g r"
proof -
  have a: "project g (batchAsyncs (map (\<lambda>p. createFolderTask e n (mk_node p TFolder)) ps) r')
             = project g r' @ concat (map (\<lambda>p. []) ps)" for n ps r'
    by (rule batchAsyncs_project) (simp add: createFolderTask_project assms split: option.splits)
  have b: "project g (batchAsyncs (map (\<lambda>p. uploadTask e n (mk_node p TFile)) ps) r')
             = project g r' @ concat (map (\<lambda>p. []) ps)" for n ps r'
    by (rule batchAsyncs_project) (simp add: uploadTask_project assms split: option.splits)
  have c: "project g (r\<lparr>completed := 0\<rparr>) = project g r"
    by (simp add: project_def)
  show ?thesis by (simp add: create_phase_paths a b c)
qed

lemma update_call_fst: "project update_call r = map fst (project update_ev r)"
proof -
  have "List.map_filter update_call tr = map fst (List.map_filter update_ev tr)" for tr
  proof (induction tr)
    case Nil
    show ?case by (simp add: List.map_filter_simps)
  next
    case (Cons ev tr)
    show ?case
    proof (cases "update_ev ev")
      case None
      then have "update_call ev = None"
        by (cases ev rule: update_ev.cases) simp_all
      with None Cons show ?thesis by (simp add: List.map_filter_simps)
    next
      case (Some y)
      then have "update_call ev = Some (fst y)"
        by (cases ev rule: update_ev.cases) auto
      with Some Cons show ?thesis by (simp add: List.map_filter_simps)
    qed
  qed
  then show ?thesis by (simp add: project_def)
qed

text \<open>
  The updates of a completed run: one for each journaled modify path with a local file, in
  journal order, with the value that the lookup derived from the Index gives for the path.
  A run that does not complete makes none.
\<close>

lemma aborted_update_ev:
  assumes "fst (push e t) \<noteq> Completed"
  shows "project update_ev (snd (push e t)) = []"
  using no_calls_unless_completed(3) [OF assms] by (simp add: update_call_fst)

lemma completed_update_ev:
  assumes "push e t = (Completed, r)"
  shows "project update_ev r =
           map (\<lambda>q. (q, obj_get (fromEntries (map prod.swap (index_of r))) q,
                        drive_updateFile e
                          (obj_get (fromEntries (map prod.swap (index_of r))) q) (Binary q)))
             (local_paths e TFile (ops_of_kind Modify (prepared e t)))"
proof (cases rule: push_cases [of t e])
  case Blocked
  with assms show ?thesis by simp
next
  case FetchFailed
  with assms show ?thesis by simp
next
  case (DeleteFailed r2)
  with assms show ?thesis by simp
next
  case (Completed r2)
  let ?r3 = "emit (SetMessage (Literal ''Syncing (33%)'')) r2"
  let ?r4 = "create_phase e (ops_of_kind Create (prepared e t)) ?r3"
  let ?r5 = "modify_phase e (ops_of_kind Modify (prepared e t)) ?r4"
  have r: "r = finish e ?r5" using assms Completed(4) by simp
  have idx: "index_of r = index_of ?r4"
    by (simp add: r finish_simps)
  have "project update_ev ?r3 = []"
    by (rule before_create_silent [OF Completed(3)]) simp_all
  then have r4: "project update_ev ?r4 = []"
    by (simp add: create_phase_silent)
  have "project update_ev r = project update_ev ?r5"
    unfolding r by (simp add: project_trace finish_simps map_filter_append List.map_filter_simps)
  also have "\<dots> = map (\<lambda>q. (q, obj_get (fromEntries (map prod.swap (index_of ?r4))) q,
                        drive_updateFile e
                          (obj_get (fromEntries (map prod.swap (index_of ?r4))) q) (Binary q)))
                     (local_paths e TFile (ops_of_kind Modify (prepared e t)))"
    by (simp add: modify_phase_update_ev r4)
  finally show ?thesis by (simp only: idx)
qed

text \<open>
  The bulk delete request of a run: one, when the run started a session, the search
  succeeded and there is a path to delete, and then with the value that \<open>pathsToIds\<close>
  gives for each delete path, in order.
\<close>

lemma push_delete_call:
  "project delete_call (snd (push e t)) =
     (if syncing t \<or> drive_searchFiles e ConfigQuery = None \<or> all_deletes e t = [] then []
      else [(map (\<lambda>(q, _). obj_get (pathsToIds (prepared e t)) q) (all_deletes e t),
             drive_batchDelete e
               (map (\<lambda>(q, _). obj_get (pathsToIds (prepared e t)) q) (all_deletes e t)))])"
proof (cases rule: push_cases [of t e])
  case Blocked
  then show ?thesis by (simp add: project_trace init_run_def List.map_filter_simps)
next
  case FetchFailed
  then show ?thesis by (simp add: project_trace map_filter_append List.map_filter_simps)
next
  case (DeleteFailed r2)
  from delete_phase_False [OF DeleteFailed(3)] DeleteFailed(1,2,4)
  show ?thesis by (simp add: project_trace map_filter_append List.map_filter_simps)
next
  case (Completed r2)
  let ?r3 = "emit (SetMessage (Literal ''Syncing (33%)'')) r2"
  let ?r4 = "create_phase e (ops_of_kind Create (prepared e t)) ?r3"
  let ?r5 = "modify_phase e (ops_of_kind Modify (prepared e t)) ?r4"
  have "project delete_call (finish e ?r5) = project delete_call ?r3"
    by (simp add: finish_silent modify_phase_silent create_phase_silent)
  also have "\<dots> = project delete_call r2" by simp
  finally have "project delete_call (snd (push e t)) = project delete_call r2"
    using Completed(4) by simp
  with delete_phase_True(1,2) [OF Completed(3)] Completed(1,2)
  show ?thesis by (auto simp: project_trace map_filter_append List.map_filter_simps)
qed

text \<open>What decides how a run that started a session returns.\<close>

lemma outcome_by_remote_answers:
  assumes "\<not> syncing t"
  shows "fst (push e t) = Completed \<longleftrightarrow>
           drive_searchFiles e ConfigQuery \<noteq> None
         \<and> (all_deletes e t = []
            \<or> drive_batchDelete e
                (map (\<lambda>(q, _). obj_get (pathsToIds (prepared e t)) q) (all_deletes e t)))"
proof (cases rule: push_cases [of t e])
  case Blocked
  with assms show ?thesis by simp
next
  case FetchFailed
  then show ?thesis by simp
next
  case (DeleteFailed r2)
  from delete_phase_False(1,2) [OF DeleteFailed(3)] DeleteFailed(4)
  show ?thesis by simp
next
  case (Completed r2)
  from delete_phase_True(1) [OF Completed(3)] Completed(2,4)
  show ?thesis by simp
qed

lemma abort_keeps_settings:
  assumes "\<not> syncing t" and "fst (push e t) \<noteq> Completed"
  shows "settings (plugin (snd (push e t))) = pull_settings e (settings t)"
    and "\<exists>pre m. trace (snd (push e t)) = pre @ [Notice m] \<and> m \<noteq> ''Sync complete!''"
proof -
  have "settings (plugin (snd (push e t))) = pull_settings e (settings t)
      \<and> (\<exists>pre m. trace (snd (push e t)) = pre @ [Notice m] \<and> m \<noteq> ''Sync complete!'')"
  proof (cases rule: push_cases [of t e])
    case Blocked
    with assms show ?thesis by simp
  next
    case FetchFailed
    then show ?thesis by simp
  next
    case (DeleteFailed r2)
    from delete_phase_False(3) [OF DeleteFailed(3)] DeleteFailed(4)
    show ?thesis by simp
  next
    case (Completed r2)
    with assms show ?thesis by simp
  qed
  then show "settings (plugin (snd (push e t))) = pull_settings e (settings t)"
    and "\<exists>pre m. trace (snd (push e t)) = pre @ [Notice m] \<and> m \<noteq> ''Sync complete!''"
    by simp_all
qed

section \<open>The concrete runs, evaluated\<close>

lemma tree_run: "push env_tree tree_plugin = (Completed, tree_result)"
  by (simp add: run_defs example_defs env_tree_def tree_plugin_def tree_result_def
        tree_trace_def tree_index_def Let_def foldersToBatches_def depthIn.simps
        parentPath_def nameOfPath_def)

lemma unresolved_run:
  "push env_unresolved unresolved_plugin =
     (Completed,
      \<lparr>plugin = plugin_with [] [], pathsToIds = [], completed = 1, trace = unresolved_trace\<rparr>)"
  by (simp add: run_defs example_defs env_unresolved_def unresolved_plugin_def
        unresolved_trace_def Let_def)

lemma inherited_run:
  "push env_inherited inherited_plugin =
     (Completed,
      \<lparr>plugin = plugin_with [] [], pathsToIds = [], completed = 1, trace = inherited_trace\<rparr>)"
  by (simp add: run_defs example_defs env_inherited_def inherited_plugin_def
        inherited_trace_def Let_def)

lemma proto_run:
  "push env_proto proto_plugin =
     (Completed,
      \<lparr>plugin =
         plugin_with
           [(''F:__proto__'', ''__proto__''), (''U:__proto__/n.md'', ''__proto__/n.md'')] [],
       pathsToIds = [], completed = 2, trace = proto_trace\<rparr>)"
  by (simp add: run_defs example_defs env_tree_def env_proto_def proto_plugin_def
        proto_trace_def Let_def foldersToBatches_def depthIn.simps parentPath_def nameOfPath_def)

lemma proto_id_run:
  "push env_proto_id (plugin_with [] [(''d'', Create)]) =
     (Completed,
      \<lparr>plugin = plugin_with [] [],
       pathsToIds = [(''d'', ''__proto__'')],
       completed = 1,
       trace =
         [StartSync, PullCall True, SearchFiles ConfigQuery (Some []),
          SetMessage (Literal ''Syncing (33%)''),
          CreateFolder ''d'' Undefined ''d'' (Some ''__proto__''),
          SetMessage (SyncMessage 33 66 1 1),
          UpdateFile Undefined
            (Json \<lparr>driveIdToPath = [], operations = [(''d'', Create)]\<rparr>)
            (Some ''ok''),
          EndSync, Notice ''Sync complete!'']\<rparr>)"
  by (simp add: run_defs example_defs env_tree_def env_proto_id_def Let_def
        foldersToBatches_def depthIn.simps parentPath_def nameOfPath_def)

section \<open>The claims\<close>

text \<open>
  C1. The claim: the journal is emptied only after the final persist step has
  succeeded, and a run in which the persist step or a batched action fails ends with the
  journal it started with. The run of the spec's own scenario, journal
  \<open>{notes/a.md: modify}\<close> and Index \<open>{id1: notes/a.md}\<close>, with a remote side that fails
  every update: the update of the note fails and is reported, the update that persists the
  settings fails too, and the run completes with an empty journal.
\<close>

theorem push_clears_journal_after_failed_updates:
  "push env_update_fails (plugin_with [(''id1'', ''notes/a.md'')] [(''notes/a.md'', Modify)]) =
     (Completed,
      \<lparr>plugin = plugin_with [(''id1'', ''notes/a.md'')] [],
       pathsToIds = [(''notes/a.md'', ''id1'')],
       completed = 0,
       trace =
         [StartSync, PullCall True, SearchFiles ConfigQuery (Some []),
          SetMessage (Literal ''Syncing (33%)''),
          UpdateFile (Str ''id1'') (Binary ''notes/a.md'') None,
          Notice ''Error modifying file.'',
          UpdateFile Undefined
            (Json \<lparr>driveIdToPath = [(''id1'', ''notes/a.md'')],
                   operations = [(''notes/a.md'', Modify)]\<rparr>)
            None,
          EndSync, Notice ''Sync complete!'']\<rparr>)"
  by (simp add: run_defs example_defs Let_def)

text \<open>
  C2. The claim: the session flag is cleared on every path on which a run that set it
  returns. The run in which the search for configuration objects fails returns with the
  flag still set, and the next call of \<open>push\<close> returns at once without doing anything.
\<close>

theorem push_leaves_flag_set_when_search_fails:
  "push env_search_fails (plugin_with [] []) =
     (FetchFailed,
      \<lparr>plugin = \<lparr>syncing = True, settings = \<lparr>driveIdToPath = [], operations = []\<rparr>\<rparr>,
       pathsToIds = [],
       completed = 0,
       trace =
         [StartSync, PullCall True, SearchFiles ConfigQuery None,
          Notice ''An error occurred fetching Google Drive files.'']\<rparr>)
   \<and> fst (push quiet_env (plugin (snd (push env_search_fails (plugin_with [] []))))) = Blocked
   \<and> trace (snd (push quiet_env (plugin (snd (push env_search_fails (plugin_with [] [])))))) = []"
  by (simp add: run_defs example_defs Let_def)

text \<open>
  C3. The claim: after a run whose bulk delete request succeeded, the Index has no entry
  whose path was journaled as delete. The run with Index \<open>{id1: a.md}\<close> and journal
  \<open>{a.md: delete}\<close>: the bulk delete of \<open>id1\<close> succeeds, the run completes, and the Index
  still maps \<open>id1\<close> to \<open>a.md\<close>, because the entry is removed by the key \<open>a.md\<close> in an
  object whose keys are ids.
\<close>

theorem push_keeps_index_entry_of_deleted_path:
  "fst (push quiet_env (plugin_with [(''id1'', ''a.md'')] [(''a.md'', Delete)])) = Completed
   \<and> BatchDelete [Str ''id1''] True
       \<in> set (trace (snd (push quiet_env (plugin_with [(''id1'', ''a.md'')] [(''a.md'', Delete)]))))
   \<and> index_of (snd (push quiet_env (plugin_with [(''id1'', ''a.md'')] [(''a.md'', Delete)])))
       = [(''id1'', ''a.md'')]"
  by (simp add: run_defs example_defs Let_def)




text \<open>
  C5. The claim: \<open>handleDelete\<close> tells containers from leaves by the fetched remote
  objects and recreates containers as empty containers, before any leaf. The reversal of
  the delete of \<open>docs\<close>, which the remote side holds as a folder: the folder is taken for a
  leaf, its content is requested and a file is created at \<open>docs\<close>; no folder is created.
\<close>

theorem handleDelete_recreates_folder_as_file:
  "handleDelete env_remote_folder [''docs''] (init_run (plugin_with [(''id1'', ''docs'')] [])) =
     Inr \<lparr>plugin = plugin_with [(''id1'', ''docs'')] [],
          pathsToIds = [],
          completed = 0,
          trace =
            [SearchFiles (PathsQuery [''docs'']) (Some [remote_docs]),
             GetFile (Str ''id1'') (Some ''bytes''),
             LocalCreateFile ''docs'' ''bytes'' ''t1'']\<rparr>"
  by (simp add: handleDelete_def recreateFileTask_def filePathToId_def folderMimeType_def
        run_defs example_defs Let_def)




text \<open>
  C7. In every run, the remote calls come in the order of the stages: the pull, then
  the bulk delete, then the create calls, then the updates of the modify phase, then the
  persist step; and a run that starts a session calls \<open>pull\<close> with remote-wins directly
  after the start of the session, before any other call.
\<close>

theorem push_phases_in_order:
  "sorted (project phase_rank (snd (push e t)))
   \<and> (\<not> syncing t \<longrightarrow> prefix [StartSync, PullCall True] (trace (snd (push e t))))"
proof (cases rule: push_cases [of t e])
  case Blocked
  then show ?thesis by (simp add: project_trace init_run_def List.map_filter_simps)
next
  case FetchFailed
  then show ?thesis by (simp add: project_trace map_filter_append List.map_filter_simps)
next
  case (DeleteFailed r2)
  from delete_phase_False(3) [OF DeleteFailed(3)] DeleteFailed(1,4)
  show ?thesis by (simp add: project_trace map_filter_append List.map_filter_simps)
next
  case (Completed r2)
  let ?r4 = "modify_phase e (ops_of_kind Modify (prepared e t))
              (create_phase e (ops_of_kind Create (prepared e t))
                (emit (SetMessage (Literal ''Syncing (33%)'')) r2))"
  obtain ks where ks: "project phase_rank ?r4 = 0 # ks" "sorted ks" "\<forall>k\<in>set ks. k \<in> {1, 2, 3}"
    using ranks_before_finish [OF Completed(3)] by blast
  have "project phase_rank (finish e ?r4) = 0 # ks @ [4]"
    using ks(1) by (simp add: project_trace finish_simps map_filter_append List.map_filter_simps)
  moreover have "sorted (0 # ks @ [4])"
    using ks(2,3) by (force simp: sorted_append)
  moreover have "prefix [StartSync, PullCall True] (trace ?r4)"
  proof -
    have "prefix [StartSync, PullCall True] (trace (searched e t))" by simp
    also have "prefix \<dots> (trace r2)" using delete_phase_prefix [OF Completed(3)] .
    also have "prefix \<dots> (trace (emit (SetMessage (Literal ''Syncing (33%)'')) r2))" by simp
    also have "prefix \<dots> (trace (create_phase e (ops_of_kind Create (prepared e t))
                 (emit (SetMessage (Literal ''Syncing (33%)'')) r2)))"
      by (rule create_phase_prefix)
    also have "prefix \<dots> (trace ?r4)" by (rule modify_phase_prefix)
    finally show ?thesis .
  qed
  ultimately show ?thesis
    using Completed(1,4) by (auto simp: finish_simps prefix_def)
qed

theorem push_phases_in_order_witness:
  "\<not> syncing tree_plugin
   \<and> project phase_rank (snd (push env_tree tree_plugin)) = [0, 1, 2, 2, 2, 3, 4]
   \<and> sorted (project phase_rank (snd (push env_tree tree_plugin)))
   \<and> prefix [StartSync, PullCall True] (trace (snd (push env_tree tree_plugin)))"
proof -
  have ns: "\<not> syncing tree_plugin"
    by (simp add: tree_plugin_def plugin_with_def)
  have ranks: "project phase_rank (snd (push env_tree tree_plugin)) = [0, 1, 2, 2, 2, 3, 4]"
    by (simp add: tree_run project_def tree_result_def tree_trace_def List.map_filter_simps)
  note T = push_phases_in_order [of env_tree tree_plugin]
  from ns ranks conjunct1 [OF T] mp [OF conjunct2 [OF T] ns] show ?thesis by (intro conjI)
qed

text \<open>
  C8. A journaled path with no node in the local tree: the reversal of its create
  changes nothing; no create, upload or update call of \<open>push\<close> is made for it; every
  error notice of the run answers a failed remote call, so none is raised for the missing
  path; and in a completed run the calls are exactly those for the journaled paths that
  exist locally, the containers each once, the uploads and updates in journal order.
\<close>

theorem missing_local_path_is_skipped:
  assumes "vault_node e p = None"
  shows "handleCreate e p r0 = r0
       \<and> p \<notin> set (project folder_call (snd (push e t)))
       \<and> p \<notin> set (project upload_call (snd (push e t)))
       \<and> p \<notin> set (project update_call (snd (push e t)))
       \<and> length (project error_notice (snd (push e t))) = length (project failed_call (snd (push e t)))
       \<and> (fst (push e t) = Completed \<longrightarrow>
            mset (project folder_call (snd (push e t)))
              = mset (local_paths e TFolder (ops_of_kind Create (prepared e t)))
          \<and> project upload_call (snd (push e t))
              = local_paths e TFile (ops_of_kind Create (prepared e t))
          \<and> project update_call (snd (push e t))
              = local_paths e TFile (ops_of_kind Modify (prepared e t)))"
proof -
  have h: "handleCreate e p r0 = r0"
    using assms by (simp add: handleCreate_def getAbstractFileByPath_def)
  have n: "length (project error_notice (snd (push e t))) = length (project failed_call (snd (push e t)))"
    using push_notices_match [of e t] by (simp add: notices_match_def)
  have absent: "p \<notin> set (local_paths e k ops)" for k ops
    using assms local_paths_present [of p e k ops] by auto
  show ?thesis
  proof (cases "fst (push e t) = Completed")
    case True
    then have c: "push e t = (Completed, snd (push e t))"
      by (metis prod.collapse)
    note calls = completed_calls [OF c]
    have m: "mset (project folder_call (snd (push e t)))
               = mset (local_paths e TFolder (ops_of_kind Create (prepared e t)))"
      by (simp add: calls(1) mset_folder_order)
    have "p \<notin> set (project folder_call (snd (push e t)))"
      using absent [of TFolder "ops_of_kind Create (prepared e t)"] mset_eq_setD [OF m] by simp
    with h n m calls(2,3) absent show ?thesis by simp
  next
    case False
    with h n no_calls_unless_completed [OF False] show ?thesis by simp
  qed
qed

theorem missing_local_path_is_skipped_witness:
  "vault_node env_tree ''gone.md'' = None
   \<and> handleCreate env_tree ''gone.md'' (init_run tree_plugin) = init_run tree_plugin
   \<and> ''gone.md'' \<notin> set (project folder_call (snd (push env_tree tree_plugin)))
   \<and> ''gone.md'' \<notin> set (project upload_call (snd (push env_tree tree_plugin)))
   \<and> ''gone.md'' \<notin> set (project update_call (snd (push env_tree tree_plugin)))
   \<and> fst (push env_tree tree_plugin) = Completed
   \<and> project folder_call (snd (push env_tree tree_plugin)) = [''d'', ''d/s'']
   \<and> project upload_call (snd (push env_tree tree_plugin)) = [''d/s/n.md'']
   \<and> project update_call (snd (push env_tree tree_plugin)) = [''a.md'']"
proof -
  have absent: "vault_node env_tree ''gone.md'' = None"
    by (simp add: env_tree_def quiet_env_def)
  note T = missing_local_path_is_skipped
             [OF absent, of "init_run tree_plugin" tree_plugin]
  have c: "fst (push env_tree tree_plugin) = Completed"
    by (simp add: tree_run)
  have calls: "project folder_call (snd (push env_tree tree_plugin)) = [''d'', ''d/s'']"
      "project upload_call (snd (push env_tree tree_plugin)) = [''d/s/n.md'']"
      "project update_call (snd (push env_tree tree_plugin)) = [''a.md'']"
    by (simp_all add: tree_run project_def tree_result_def tree_trace_def List.map_filter_simps)
  from absent conjunct1 [OF T] conjunct1 [OF conjunct2 [OF T]]
    conjunct1 [OF conjunct2 [OF conjunct2 [OF T]]]
    conjunct1 [OF conjunct2 [OF conjunct2 [OF conjunct2 [OF T]]]] c calls
  show ?thesis by (intro conjI)
qed

text \<open>
  C9. In a completed run, the settings sent by the persist step are serialised while
  the journal still holds what \<open>pull\<close> left in it, which is what the phases of the run
  worked on; the run sends no other settings snapshot, and empties the journal afterwards.
\<close>

theorem persist_snapshot_holds_journal:
  assumes "push e t = (Completed, r)"
  shows "\<exists>pre i s res.
           trace r = pre @ [UpdateFile i (Json s) res, EndSync, Notice ''Sync complete!'']
         \<and> operations s = operations (pull_settings e (settings t))
         \<and> (\<forall>i' s' res'. UpdateFile i' (Json s') res' \<notin> set pre)
         \<and> journal_of r = []"
proof (cases rule: push_cases [of t e])
  case Blocked
  with assms show ?thesis by simp
next
  case FetchFailed
  with assms show ?thesis by simp
next
  case (DeleteFailed r2)
  with assms show ?thesis by simp
next
  case (Completed r2)
  let ?r3 = "emit (SetMessage (Literal ''Syncing (33%)'')) r2"
  let ?r4 = "modify_phase e (ops_of_kind Modify (prepared e t))
              (create_phase e (ops_of_kind Create (prepared e t)) ?r3)"
  have r: "r = finish e ?r4" using assms Completed(4) by simp
  have "journal_of ?r4 = journal_of r2"
    by (simp add: create_phase_frame)
  also have "\<dots> = operations (pull_settings e (settings t))"
    using delete_phase_True(4) [OF Completed(3)] by simp
  finally have j: "operations (settings (plugin ?r4)) = operations (pull_settings e (settings t))"
    by (simp add: journal_of_def)
  obtain ks where ks: "project phase_rank ?r4 = 0 # ks" "\<forall>k\<in>set ks. k \<in> {1, 2, 3}"
    using ranks_before_finish [OF Completed(3)] by blast
  have none: "UpdateFile i' (Json s') res' \<notin> set (trace ?r4)" for i' s' res'
  proof
    assume "UpdateFile i' (Json s') res' \<in> set (trace ?r4)"
    then have "4 \<in> set (project phase_rank ?r4)"
      by (rule project_member) simp
    with ks show False by force
  qed
  show ?thesis
    unfolding r finish_simps using j none by blast
qed

theorem persist_snapshot_holds_journal_witness:
  "push env_tree tree_plugin = (Completed, tree_result)
   \<and> (\<exists>pre i s res.
         trace tree_result = pre @ [UpdateFile i (Json s) res, EndSync, Notice ''Sync complete!'']
       \<and> operations s = operations (pull_settings env_tree (settings tree_plugin))
       \<and> (\<forall>i' s' res'. UpdateFile i' (Json s') res' \<notin> set pre)
       \<and> journal_of tree_result = [])"
  using tree_run persist_snapshot_holds_journal [OF tree_run] by (rule conjI)

text \<open>
  C10. The modify phase does not change the Remote Identity Index: whatever the remote
  side answers to the update calls, the id-to-path map after the phase is the map before
  it.
\<close>

theorem modify_phase_keeps_index: "index_of (modify_phase e modifies r) = index_of r"
  by (simp add: index_of_def modify_phase_plugin)

end
